theory Spec2Isabelle
  imports Complex_Main "HOL-Library.Multiset"
begin

section \<open>Errors and the error monad\<close>

text \<open>
  Every exception the notebook's code (or a numpy or Python primitive it calls) can raise
  is a value: \<open>ValueError\<close> for numpy shape mismatches, a failed tuple unpacking, a
  negative dimension and \<open>range\<close> with step zero; \<open>IndexError\<close> for a list index out
  of range; \<open>ZeroDivisionError\<close> for a float divided by the integer zero.
  Floating-point numbers are modelled by the real numbers.
\<close>

datatype error = ValueError | IndexError | ZeroDivisionError

definition bindE :: "error + 'a \<Rightarrow> ('a \<Rightarrow> error + 'b) \<Rightarrow> error + 'b" where
  "bindE m f = (case m of Inl e \<Rightarrow> Inl e | Inr v \<Rightarrow> f v)"

fun mapE :: "('a \<Rightarrow> error + 'b) \<Rightarrow> 'a list \<Rightarrow> error + 'b list" where
  "mapE f [] = Inr []"
| "mapE f (x # xs) = bindE (f x) (\<lambda>y. bindE (mapE f xs) (\<lambda>ys. Inr (y # ys)))"

fun foldE :: "('s \<Rightarrow> 'a \<Rightarrow> error + 's) \<Rightarrow> 's \<Rightarrow> 'a list \<Rightarrow> error + 's" where
  "foldE f s [] = Inr s"
| "foldE f s (x # xs) = bindE (f s x) (\<lambda>s'. foldE f s' xs)"

section \<open>Python lists\<close>

text \<open>\<open>xs[i]\<close> and \<open>xs[i] = v\<close>: a negative index counts from the end, an index out of
  range raises \<open>IndexError\<close>.\<close>

definition py_index :: "'a list \<Rightarrow> int \<Rightarrow> error + nat" where
  "py_index xs i =
     (if 0 \<le> i \<and> i < int (length xs) then Inr (nat i)
      else if i < 0 \<and> - int (length xs) \<le> i then Inr (nat (int (length xs) + i))
      else Inl IndexError)"

definition py_get :: "'a list \<Rightarrow> int \<Rightarrow> error + 'a" where
  "py_get xs i = bindE (py_index xs i) (\<lambda>k. Inr (xs ! k))"

definition py_set :: "'a list \<Rightarrow> int \<Rightarrow> 'a \<Rightarrow> error + 'a list" where
  "py_set xs i v = bindE (py_index xs i) (\<lambda>k. Inr (xs[k := v]))"

section \<open>numpy arrays\<close>

text \<open>
  A two-dimensional \<open>ndarray\<close> of shape \<open>(r, c)\<close> is the list of its \<open>r\<close> rows together
  with \<open>c\<close> (kept apart so that the shapes \<open>(0, c)\<close> are told apart). Every row of an
  array has \<open>c\<close> entries (\<open>wf_arr\<close>). A three-dimensional array of shape \<open>(B, r, c)\<close>, as
  \<open>np.stack\<close> builds it from the \<open>B \<ge> 1\<close> samples of a mini-batch, is the list of its
  \<open>B\<close> slices along the batch axis.
\<close>

datatype ndarray = Arr (ncols: nat) (rws: "real list list")

type_synonym ndarray3 = "ndarray list"

definition nrows :: "ndarray \<Rightarrow> nat" where
  "nrows a = length (rws a)"

definition shape :: "ndarray \<Rightarrow> nat \<times> nat" where
  "shape a = (nrows a, ncols a)"

definition wf_arr :: "ndarray \<Rightarrow> bool" where
  "wf_arr a = list_all (\<lambda>r. length r = ncols a) (rws a)"

definition ent :: "ndarray \<Rightarrow> nat \<Rightarrow> nat \<Rightarrow> real" where
  "ent a i j = rws a ! i ! j"

definition mk :: "nat \<Rightarrow> nat \<Rightarrow> (nat \<Rightarrow> nat \<Rightarrow> real) \<Rightarrow> ndarray" where
  "mk r c f = Arr c (map (\<lambda>i. map (\<lambda>j. f i j) [0..<c]) [0..<r])"

text \<open>\<open>np.zeros(a.shape)\<close>.\<close>

definition zeros_like :: "ndarray \<Rightarrow> ndarray" where
  "zeros_like a = mk (nrows a) (ncols a) (\<lambda>i j. 0)"

text \<open>An elementwise function of one array, and of two arrays of the same shape.\<close>

definition amap :: "(real \<Rightarrow> real) \<Rightarrow> ndarray \<Rightarrow> ndarray" where
  "amap f a = Arr (ncols a) (map (map f) (rws a))"

definition ew2 :: "(real \<Rightarrow> real \<Rightarrow> real) \<Rightarrow> ndarray \<Rightarrow> ndarray \<Rightarrow> ndarray" where
  "ew2 f a b = Arr (ncols a) (map2 (map2 f) (rws a) (rws b))"

text \<open>
  numpy's broadcasting of a binary elementwise operator (\<open>+\<close>, \<open>-\<close>, \<open>*\<close>): along
  each axis the two lengths are equal or one of them is 1 (and is stretched); any other
  pair of shapes raises \<open>ValueError\<close>.
\<close>

definition bdim :: "nat \<Rightarrow> nat \<Rightarrow> nat option" where
  "bdim m n = (if m = n then Some m else if m = 1 then Some n else if n = 1 then Some m else None)"

definition bent :: "ndarray \<Rightarrow> nat \<Rightarrow> nat \<Rightarrow> real" where
  "bent a i j = ent a (if nrows a = 1 then 0 else i) (if ncols a = 1 then 0 else j)"

definition np_binop :: "(real \<Rightarrow> real \<Rightarrow> real) \<Rightarrow> ndarray \<Rightarrow> ndarray \<Rightarrow> error + ndarray" where
  "np_binop f a b =
     (case (bdim (nrows a) (nrows b), bdim (ncols a) (ncols b)) of
        (Some r, Some c) \<Rightarrow> Inr (mk r c (\<lambda>i j. f (bent a i j) (bent b i j)))
      | _ \<Rightarrow> Inl ValueError)"

text \<open>The same operator on a stack and a single array (broadcast to every slice), and on
  two stacks (the batch axis broadcasts like any other).\<close>

definition np_binop32 :: "(real \<Rightarrow> real \<Rightarrow> real) \<Rightarrow> ndarray3 \<Rightarrow> ndarray \<Rightarrow> error + ndarray3" where
  "np_binop32 f as b = mapE (\<lambda>a. np_binop f a b) as"

definition np_binop33 :: "(real \<Rightarrow> real \<Rightarrow> real) \<Rightarrow> ndarray3 \<Rightarrow> ndarray3 \<Rightarrow> error + ndarray3" where
  "np_binop33 f as bs =
     (if length as = length bs then mapE (\<lambda>(a, b). np_binop f a b) (zip as bs)
      else if length as = 1 then mapE (\<lambda>b. np_binop f (hd as) b) bs
      else if length bs = 1 then mapE (\<lambda>a. np_binop f a (hd bs)) as
      else Inl ValueError)"

text \<open>\<open>np.dot\<close> and \<open>np.matmul\<close> of two-dimensional arrays: the matrix product, with
  \<open>ValueError\<close> when the inner dimensions differ.\<close>

definition np_dot :: "ndarray \<Rightarrow> ndarray \<Rightarrow> error + ndarray" where
  "np_dot a b =
     (if ncols a \<noteq> nrows b then Inl ValueError
      else Inr (mk (nrows a) (ncols b)
                  (\<lambda>i j. sum_list (map (\<lambda>k. ent a i k * ent b k j) [0..<ncols a]))))"

text \<open>\<open>np.matmul\<close> of a matrix and a stack (the matrix is broadcast over the batch axis)
  and of two stacks (slice by slice).\<close>

definition np_matmul23 :: "ndarray \<Rightarrow> ndarray3 \<Rightarrow> error + ndarray3" where
  "np_matmul23 w as = mapE (\<lambda>a. np_dot w a) as"

definition np_matmul33 :: "ndarray3 \<Rightarrow> ndarray3 \<Rightarrow> error + ndarray3" where
  "np_matmul33 as bs =
     (if length as = length bs then mapE (\<lambda>(a, b). np_dot a b) (zip as bs)
      else if length as = 1 then mapE (\<lambda>b. np_dot (hd as) b) bs
      else if length bs = 1 then mapE (\<lambda>a. np_dot a (hd bs)) as
      else Inl ValueError)"

text \<open>\<open>w.transpose()\<close> of a matrix and \<open>a.transpose(0, 2, 1)\<close> of a stack.\<close>

definition transpose2 :: "ndarray \<Rightarrow> ndarray" where
  "transpose2 a = mk (ncols a) (nrows a) (\<lambda>i j. ent a j i)"

definition transpose021 :: "ndarray3 \<Rightarrow> ndarray3" where
  "transpose021 as = map transpose2 as"

text \<open>\<open>a.sum(axis = 0)\<close> of a stack: the sum of its slices. The stacks of this program
  have at least one slice.\<close>

fun sum_axis0 :: "ndarray3 \<Rightarrow> ndarray" where
  "sum_axis0 [] = Arr 0 []"
| "sum_axis0 (a # as) =
     mk (nrows a) (ncols a) (\<lambda>i j. sum_list (map (\<lambda>m. ent m i j) (a # as)))"

text \<open>\<open>np.stack\<close> of a sequence of arrays: \<open>ValueError\<close> when the sequence is empty or
  the shapes differ.\<close>

definition np_stack :: "ndarray list \<Rightarrow> error + ndarray3" where
  "np_stack as =
     (case as of
        [] \<Rightarrow> Inl ValueError
      | a # rest \<Rightarrow> if list_all (\<lambda>b. shape b = shape a) rest then Inr as else Inl ValueError)"

text \<open>\<open>np.argmax\<close> of an array: the index, in the flattened (row-major) array, of the
  first entry that is greater than all the entries before it and not less than any
  after; \<open>ValueError\<close> on an empty array. The scan is numpy's: the running maximum is
  replaced only by a strictly greater entry.\<close>

fun argmax_scan :: "real list \<Rightarrow> nat \<Rightarrow> real \<Rightarrow> nat \<Rightarrow> nat" where
  "argmax_scan [] i mp idx = idx"
| "argmax_scan (v # vs) i mp idx =
     (if v > mp then argmax_scan vs (Suc i) v i else argmax_scan vs (Suc i) mp idx)"

definition flatten :: "ndarray \<Rightarrow> real list" where
  "flatten a = concat (rws a)"

definition np_argmax :: "ndarray \<Rightarrow> error + int" where
  "np_argmax a =
     (case flatten a of
        [] \<Rightarrow> Inl ValueError
      | v # vs \<Rightarrow> Inr (int (argmax_scan vs 1 v 0)))"

section \<open>Basic math functions\<close>

definition sigmoid_real :: "real \<Rightarrow> real" where
  "sigmoid_real z = 1 / (1 + exp (- z))"

definition sigmoid :: "ndarray \<Rightarrow> ndarray" where
  "sigmoid z = amap sigmoid_real z"

text \<open>\<open>sigmoid(z) * (1 - sigmoid(z))\<close>: both factors have the shape of \<open>z\<close>.\<close>

definition sigmoid_prime :: "ndarray \<Rightarrow> ndarray" where
  "sigmoid_prime z = ew2 (*) (sigmoid z) (amap (\<lambda>v. 1 - v) (sigmoid z))"

definition sigmoid3 :: "ndarray3 \<Rightarrow> ndarray3" where
  "sigmoid3 zs = map sigmoid zs"

definition sigmoid_prime3 :: "ndarray3 \<Rightarrow> ndarray3" where
  "sigmoid_prime3 zs = map sigmoid_prime zs"

definition cost_derivative :: "ndarray3 \<Rightarrow> ndarray3 \<Rightarrow> error + ndarray3" where
  "cost_derivative output_activations y = np_binop33 (-) output_activations y"

section \<open>The neural network\<close>

record Network =
  num_layers :: int
  biases :: "ndarray list"
  weights :: "ndarray list"

subsection \<open>Forward propagation\<close>

fun feedforward_loop :: "(ndarray \<times> ndarray) list \<Rightarrow> ndarray \<Rightarrow> error + ndarray" where
  "feedforward_loop [] a = Inr a"
| "feedforward_loop ((b, w) # bws) a =
     bindE (np_dot w a) (\<lambda>wa. bindE (np_binop (+) wa b) (\<lambda>z. feedforward_loop bws (sigmoid z)))"

definition feedforward :: "Network \<Rightarrow> ndarray \<Rightarrow> error + ndarray" where
  "feedforward nn a = feedforward_loop (zip (biases nn) (weights nn)) a"

subsection \<open>Evaluation\<close>

definition evaluate :: "Network \<Rightarrow> (ndarray \<times> int) list \<Rightarrow> error + int" where
  "evaluate nn test_data =
     bindE (mapE (\<lambda>(x, y). bindE (feedforward nn x) (\<lambda>out. bindE (np_argmax out) (\<lambda>p. Inr (p, y))))
              test_data)
       (\<lambda>test_results. Inr (sum_list (map (\<lambda>(x, y). if x = y then 1 else 0) test_results)))"

subsection \<open>Initialisation\<close>

text \<open>
  \<open>np.random.randn(d0, d1)\<close> draws \<open>d0 * d1\<close> samples from numpy's global generator
  and returns them as an array of shape \<open>(d0, d1)\<close>; a negative dimension raises
  \<open>ValueError\<close>. The generator's state is the stream of the samples it will hand out.
\<close>

type_synonym np_rng = "nat \<Rightarrow> real"

definition randn :: "np_rng \<Rightarrow> int \<Rightarrow> int \<Rightarrow> error + (ndarray \<times> np_rng)" where
  "randn g d0 d1 =
     (if d0 < 0 \<or> d1 < 0 then Inl ValueError
      else Inr (mk (nat d0) (nat d1) (\<lambda>i j. g (i * nat d1 + j)), \<lambda>k. g (k + nat d0 * nat d1)))"

fun randn_list :: "np_rng \<Rightarrow> (int \<times> int) list \<Rightarrow> error + (ndarray list \<times> np_rng)" where
  "randn_list g [] = Inr ([], g)"
| "randn_list g ((d0, d1) # ds) =
     bindE (randn g d0 d1) (\<lambda>(a, g').
     bindE (randn_list g' ds) (\<lambda>(as, g''). Inr (a # as, g'')))"

definition init_network :: "np_rng \<Rightarrow> int list \<Rightarrow> error + (Network \<times> np_rng)" where
  "init_network g layers =
     bindE (randn_list g (map (\<lambda>y. (y, 1)) (tl layers))) (\<lambda>(bs, g1).
     bindE (randn_list g1 (map (\<lambda>(x, y). (y, x)) (zip (butlast layers) (tl layers)))) (\<lambda>(ws, g2).
     Inr (\<lparr>num_layers = int (length layers), biases = bs, weights = ws\<rparr>, g2)))"

subsection \<open>Backpropagation\<close>

text \<open>
  A training sample is a pair \<open>(x, y)\<close> of column vectors, as \<open>load_data_wrapper\<close> and
  \<open>one_hot_encode\<close> build them: \<open>x\<close> an array of shape \<open>(n, 1)\<close> and \<open>y\<close> an array of
  shape \<open>(m, 1)\<close>. A vector is the list of its entries; \<open>col\<close> is the array.
\<close>

type_synonym vec = "real list"

type_synonym sample = "vec \<times> vec"

definition col :: "vec \<Rightarrow> ndarray" where
  "col v = Arr 1 (map (\<lambda>x. [x]) v)"

text \<open>
  \<open>ax, ay = tuple(t for t in np.asarray(mini_batch).transpose())\<close>, for numpy before
  version 1.24 (the notebook ran on Python 3.6):
  \<^item> of the empty list, \<open>np.asarray\<close> has shape \<open>(0,)\<close>, there is nothing to unpack:
    \<open>ValueError\<close>;
  \<^item> when every \<open>x\<close> and every \<open>y\<close> of the mini-batch has the same shape \<open>(n, 1)\<close>, the
    nested sequence is homogeneous and \<open>np.asarray\<close> is a float array of shape
    \<open>(B, 2, n, 1)\<close>; its transpose has shape \<open>(1, n, 2, B)\<close>, so the generator yields one
    item where two are unpacked: \<open>ValueError\<close>;
  \<^item> otherwise the sequence is ragged and \<open>np.asarray\<close> is an array of objects of shape
    \<open>(B, 2)\<close>; its transpose has the row of the inputs and the row of the targets.
\<close>

definition unpack_batch :: "sample list \<Rightarrow> error + (ndarray list \<times> ndarray list)" where
  "unpack_batch mini_batch =
     (case mini_batch of
        [] \<Rightarrow> Inl ValueError
      | (x0, y0) # rest \<Rightarrow>
          if list_all (\<lambda>(x, y). length x = length x0 \<and> length y = length x0) mini_batch
          then Inl ValueError
          else Inr (map (\<lambda>(x, y). col x) mini_batch, map (\<lambda>(x, y). col y) mini_batch))"

text \<open>The feedforward pass of \<open>batch_backprop\<close>: the loop over
  \<open>zip(nn.biases, nn.weights)\<close> with its three variables.\<close>

fun forward_pass ::
  "(ndarray \<times> ndarray) list \<Rightarrow> ndarray3 \<Rightarrow> ndarray3 list \<Rightarrow> ndarray3 list \<Rightarrow>
     error + (ndarray3 list \<times> ndarray3 list)" where
  "forward_pass [] activation activations zs = Inr (activations, zs)"
| "forward_pass ((b, w) # bws) activation activations zs =
     bindE (np_matmul23 w activation) (\<lambda>wa.
     bindE (np_binop32 (+) wa b) (\<lambda>z.
     forward_pass bws (sigmoid3 z) (activations @ [sigmoid3 z]) (zs @ [z])))"

text \<open>The body of the backward loop \<open>for i in range(2, nn.num_layers)\<close>, on the state
  \<open>(delta, nabla_b, nabla_w)\<close>.\<close>

definition backward_step ::
  "Network \<Rightarrow> ndarray3 list \<Rightarrow> ndarray3 list \<Rightarrow> ndarray3 \<times> ndarray list \<times> ndarray list \<Rightarrow> int \<Rightarrow>
     error + (ndarray3 \<times> ndarray list \<times> ndarray list)" where
  "backward_step nn zs activations s i =
     (case s of (delta, nabla_b, nabla_w) \<Rightarrow>
        bindE (py_get zs (- i)) (\<lambda>z.
        bindE (py_get (weights nn) (- i + 1)) (\<lambda>w.
        bindE (np_matmul23 (transpose2 w) delta) (\<lambda>wd.
        bindE (np_binop33 (*) wd (sigmoid_prime3 z)) (\<lambda>delta'.
        bindE (py_set nabla_b (- i) (sum_axis0 delta')) (\<lambda>nabla_b'.
        bindE (py_get activations (- i - 1)) (\<lambda>a.
        bindE (np_matmul33 delta' (transpose021 a)) (\<lambda>da.
        bindE (py_set nabla_w (- i) (sum_axis0 da)) (\<lambda>nabla_w'.
        Inr (delta', nabla_b', nabla_w'))))))))))"

definition batch_backprop :: "Network \<Rightarrow> sample list \<Rightarrow> error + (ndarray list \<times> ndarray list)" where
  "batch_backprop nn mini_batch =
     (let nabla_b = map zeros_like (biases nn);
          nabla_w = map zeros_like (weights nn)
      in bindE (unpack_batch mini_batch) (\<lambda>(ax, ay).
         bindE (np_stack ax) (\<lambda>x.
         bindE (np_stack ay) (\<lambda>y.
         bindE (forward_pass (zip (biases nn) (weights nn)) x [x] []) (\<lambda>(activations, zs).
         bindE (py_get activations (- 1)) (\<lambda>aL.
         bindE (cost_derivative aL y) (\<lambda>cd.
         bindE (py_get zs (- 1)) (\<lambda>zL.
         bindE (np_binop33 (*) cd (sigmoid_prime3 zL)) (\<lambda>delta.
         bindE (py_set nabla_b (- 1) (sum_axis0 delta)) (\<lambda>nabla_b1.
         bindE (py_get activations (- 2)) (\<lambda>aP.
         bindE (np_matmul33 delta (transpose021 aP)) (\<lambda>da.
         bindE (py_set nabla_w (- 1) (sum_axis0 da)) (\<lambda>nabla_w1.
         bindE (foldE (backward_step nn zs activations) (delta, nabla_b1, nabla_w1)
                  [2..num_layers nn - 1]) (\<lambda>(delta', nabla_b', nabla_w').
         Inr (nabla_b', nabla_w')))))))))))))))"

subsection \<open>The worker function\<close>

text \<open>\<open>eta / len(mini_batch)\<close>: a float divided by the integer zero raises.\<close>

definition py_truediv :: "real \<Rightarrow> nat \<Rightarrow> error + real" where
  "py_truediv eta m = (if m = 0 then Inl ZeroDivisionError else Inr (eta / real m))"

text \<open>\<open>[p - (eta / len(mini_batch)) * np for p, np in zip(params, nabla)]\<close>\<close>

definition sgd_step :: "real \<Rightarrow> nat \<Rightarrow> ndarray list \<Rightarrow> ndarray list \<Rightarrow> error + ndarray list" where
  "sgd_step eta m params nabla =
     mapE (\<lambda>(p, np). bindE (py_truediv eta m) (\<lambda>c. np_binop (-) p (amap (\<lambda>v. c * v) np)))
       (zip params nabla)"

text \<open>
  The function mutates \<open>nn\<close>; the model returns the network as the call leaves it,
  together with the exception raised, if any. The two assignments follow each other, so
  an exception in the second comprehension leaves the weights updated.
\<close>

definition batch_stochastic_gradient_descent ::
  "Network \<Rightarrow> sample list \<Rightarrow> real \<Rightarrow> error option \<times> Network" where
  "batch_stochastic_gradient_descent nn mini_batch eta =
     (case batch_backprop nn mini_batch of
        Inl e \<Rightarrow> (Some e, nn)
      | Inr (nabla_b, nabla_w) \<Rightarrow>
          (case sgd_step eta (length mini_batch) (weights nn) nabla_w of
             Inl e \<Rightarrow> (Some e, nn)
           | Inr ws \<Rightarrow>
               (case sgd_step eta (length mini_batch) (biases nn) nabla_b of
                  Inl e \<Rightarrow> (Some e, nn\<lparr>weights := ws\<rparr>)
                | Inr bs \<Rightarrow> (None, nn\<lparr>weights := ws, biases := bs\<rparr>))))"

subsection \<open>The learning function\<close>

text \<open>
  \<open>random.shuffle(x)\<close> of Python 3.6: \<open>for i in reversed(range(1, len(x))):
  j = randbelow(i + 1); x[i], x[j] = x[j], x[i]\<close>. The state of Python's generator is
  the stream of the numbers it will draw; \<open>randbelow(n)\<close> reduces the next one below
  \<open>n\<close>.
\<close>

type_synonym py_rng = "nat \<Rightarrow> nat"

definition randbelow :: "py_rng \<Rightarrow> nat \<Rightarrow> nat \<times> py_rng" where
  "randbelow g n = (g 0 mod n, \<lambda>k. g (Suc k))"

fun shuffle_loop :: "nat list \<Rightarrow> py_rng \<Rightarrow> 'a list \<Rightarrow> 'a list \<times> py_rng" where
  "shuffle_loop [] g x = (x, g)"
| "shuffle_loop (i # is) g x =
     (case randbelow g (i + 1) of (j, g') \<Rightarrow> shuffle_loop is g' (x[i := x ! j, j := x ! i]))"

definition shuffle :: "py_rng \<Rightarrow> 'a list \<Rightarrow> 'a list \<times> py_rng" where
  "shuffle g x = shuffle_loop (rev [1..<length x]) g x"

text \<open>\<open>range(start, stop, step)\<close> as a list, and the slice \<open>xs[lo:hi]\<close>.\<close>

definition py_range :: "int \<Rightarrow> int \<Rightarrow> int \<Rightarrow> error + int list" where
  "py_range start stop step =
     (if step = 0 then Inl ValueError
      else if step > 0
        then Inr (map (\<lambda>i. start + int i * step) [0..<nat ((stop - start + step - 1) div step)])
        else Inr (map (\<lambda>i. start + int i * step) [0..<nat ((start - stop - step - 1) div (- step))]))"

definition py_slice :: "'a list \<Rightarrow> int \<Rightarrow> int \<Rightarrow> 'a list" where
  "py_slice xs lo hi =
     (let n = int (length xs);
          l = (if lo < 0 then max (lo + n) 0 else min lo n);
          h = (if hi < 0 then max (hi + n) 0 else min hi n)
      in take (nat (h - l)) (drop (nat l) xs))"

text \<open>\<open>[training_data[k: k + mini_batch_size] for k in range(0, n, mini_batch_size)]\<close>\<close>

definition mini_batches :: "int \<Rightarrow> 'a list \<Rightarrow> int \<Rightarrow> error + 'a list list" where
  "mini_batches n training_data mini_batch_size =
     bindE (py_range 0 n mini_batch_size) (\<lambda>ks.
     Inr (map (\<lambda>k. py_slice training_data k (k + mini_batch_size)) ks))"

text \<open>The loop \<open>for mini_batch in mini_batches\<close>: it stops at the first exception.\<close>

fun sgd_batches :: "real \<Rightarrow> Network \<Rightarrow> sample list list \<Rightarrow> error option \<times> Network" where
  "sgd_batches eta nn [] = (None, nn)"
| "sgd_batches eta nn (mini_batch # rest) =
     (case batch_stochastic_gradient_descent nn mini_batch eta of
        (Some e, nn') \<Rightarrow> (Some e, nn')
      | (None, nn') \<Rightarrow> sgd_batches eta nn' rest)"

text \<open>
  What \<open>learn\<close> reads and writes: the network and the caller's list \<open>training_data\<close>
  (both mutated in place), the state of Python's generator, and the lines printed: the
  epoch number with the count of \<open>evaluate\<close> and the length of \<open>test_data\<close>, or the
  epoch number alone.
\<close>

datatype event = Accuracy int int int | Complete int

record learn_state =
  net :: Network
  data :: "sample list"
  rng :: py_rng
  printed :: "event list"

text \<open>One iteration of \<open>for j in range(epochs)\<close>. \<open>if test_data:\<close> holds for a list that
  is neither \<open>None\<close> nor empty.\<close>

definition epoch ::
  "int \<Rightarrow> int \<Rightarrow> real \<Rightarrow> (ndarray \<times> int) list option \<Rightarrow> learn_state \<Rightarrow> int \<Rightarrow>
     error option \<times> learn_state" where
  "epoch n mini_batch_size learning_rate test_data s j =
     (case shuffle (rng s) (data s) of (td, g) \<Rightarrow>
        let s1 = s\<lparr>data := td, rng := g\<rparr> in
        (case mini_batches n td mini_batch_size of
           Inl e \<Rightarrow> (Some e, s1)
         | Inr mbs \<Rightarrow>
             (case sgd_batches learning_rate (net s1) mbs of
                (Some e, nn') \<Rightarrow> (Some e, s1\<lparr>net := nn'\<rparr>)
              | (None, nn') \<Rightarrow>
                  let s2 = s1\<lparr>net := nn'\<rparr> in
                  (case test_data of
                     Some (t # ts) \<Rightarrow>
                       (case evaluate nn' (t # ts) of
                          Inl e \<Rightarrow> (Some e, s2)
                        | Inr k \<Rightarrow>
                            (None, s2\<lparr>printed := printed s2 @ [Accuracy (j + 1) k (int (length (t # ts)))]\<rparr>))
                   | _ \<Rightarrow> (None, s2\<lparr>printed := printed s2 @ [Complete (j + 1)]\<rparr>)))))"

fun epochs_loop ::
  "(learn_state \<Rightarrow> int \<Rightarrow> error option \<times> learn_state) \<Rightarrow> learn_state \<Rightarrow> int list \<Rightarrow>
     error option \<times> learn_state" where
  "epochs_loop body s [] = (None, s)"
| "epochs_loop body s (j # js) =
     (case body s j of
        (Some e, s') \<Rightarrow> (Some e, s')
      | (None, s') \<Rightarrow> epochs_loop body s' js)"

definition learn ::
  "Network \<Rightarrow> sample list \<Rightarrow> int \<Rightarrow> int \<Rightarrow> real \<Rightarrow> (ndarray \<times> int) list option \<Rightarrow> py_rng \<Rightarrow>
     error option \<times> learn_state" where
  "learn nn training_data epochs mini_batch_size learning_rate test_data g =
     (let n = int (length training_data)
      in epochs_loop (epoch n mini_batch_size learning_rate test_data)
           \<lparr>net = nn, data = training_data, rng = g, printed = []\<rparr> [0..epochs - 1])"

section \<open>The data model of the specification\<close>

text \<open>
  A network is consistent with the layer sizes \<open>sizes\<close> when it has one weight matrix of
  shape \<open>(sizes[i+1], sizes[i])\<close> and one bias vector of shape \<open>(sizes[i+1], 1)\<close> for each
  of the \<open>L - 1\<close> transitions, and \<open>num_layers\<close> is \<open>L\<close>.
\<close>

definition wf_net :: "nat list \<Rightarrow> Network \<Rightarrow> bool" where
  "wf_net sizes nn \<longleftrightarrow>
     sizes \<noteq> [] \<and>
     num_layers nn = int (length sizes) \<and>
     length (weights nn) = length sizes - 1 \<and>
     length (biases nn) = length sizes - 1 \<and>
     (\<forall>i < length sizes - 1.
        wf_arr (weights nn ! i) \<and> shape (weights nn ! i) = (sizes ! Suc i, sizes ! i) \<and>
        wf_arr (biases nn ! i) \<and> shape (biases nn ! i) = (sizes ! Suc i, 1))"

text \<open>A mini-batch for these layer sizes: inputs of length \<open>sizes[0]\<close>, targets of length
  \<open>sizes[L-1]\<close>.\<close>

definition wf_batch :: "nat list \<Rightarrow> sample list \<Rightarrow> bool" where
  "wf_batch sizes mini_batch \<longleftrightarrow>
     list_all (\<lambda>(x, y). length x = hd sizes \<and> length y = last sizes) mini_batch"

text \<open>The forward pass in the words of the specification: \<open>z = W\<cdot>a + b\<close>, then
  \<open>a = sigmoid(z)\<close>, for each transition in order, on column vectors.\<close>

definition spec_affine :: "ndarray \<Rightarrow> ndarray \<Rightarrow> ndarray \<Rightarrow> ndarray" where
  "spec_affine w a b =
     mk (nrows w) 1 (\<lambda>i j. (\<Sum>k<ncols w. ent w i k * ent a k 0) + ent b i 0)"

fun spec_forward :: "(ndarray \<times> ndarray) list \<Rightarrow> ndarray \<Rightarrow> ndarray" where
  "spec_forward [] a = a"
| "spec_forward ((w, b) # wbs) a =
     spec_forward wbs (mk (nrows w) 1 (\<lambda>i j. sigmoid_real (ent (spec_affine w a b) i 0)))"

text \<open>The same consistency, read along the list \<open>zip(nn.biases, nn.weights)\<close>: each
  weight matrix takes the width of the layer before it, and its bias has one entry per
  row.\<close>

fun chain_ok :: "nat \<Rightarrow> (ndarray \<times> ndarray) list \<Rightarrow> bool" where
  "chain_ok n [] = True"
| "chain_ok n ((b, w) # bws) =
     (wf_arr w \<and> ncols w = n \<and> wf_arr b \<and> shape b = (nrows w, 1) \<and> chain_ok (nrows w) bws)"

text \<open>
  The backpropagation equations in the words of the specification, for one sample, on
  column vectors: the Hadamard product, the difference, an elementwise function, the
  product \<open>W\<^sup>T\<cdot>delta\<close> and the product \<open>delta\<cdot>a\<^sup>T\<close> of a column with a transposed
  column.
\<close>

definition hadamard :: "ndarray \<Rightarrow> ndarray \<Rightarrow> ndarray" where
  "hadamard a b = mk (nrows a) 1 (\<lambda>i j. ent a i 0 * ent b i 0)"

definition vec_sub :: "ndarray \<Rightarrow> ndarray \<Rightarrow> ndarray" where
  "vec_sub a b = mk (nrows a) 1 (\<lambda>i j. ent a i 0 - ent b i 0)"

definition colmap :: "(real \<Rightarrow> real) \<Rightarrow> ndarray \<Rightarrow> ndarray" where
  "colmap f a = mk (nrows a) 1 (\<lambda>i j. f (ent a i 0))"

definition tmat_vec :: "ndarray \<Rightarrow> ndarray \<Rightarrow> ndarray" where
  "tmat_vec w d = mk (ncols w) 1 (\<lambda>i j. \<Sum>k<nrows w. ent w k i * ent d k 0)"

definition outer :: "ndarray \<Rightarrow> ndarray \<Rightarrow> ndarray" where
  "outer d a = mk (nrows d) (nrows a) (\<lambda>i j. ent d i 0 * ent a j 0)"

definition sigmoid_prime_real :: "real \<Rightarrow> real" where
  "sigmoid_prime_real z = sigmoid_real z * (1 - sigmoid_real z)"

text \<open>The pre-activations \<open>z\<close> of every layer, and the activations of every layer (the
  input being activation 0), of one sample.\<close>

fun ref_zs :: "(ndarray \<times> ndarray) list \<Rightarrow> ndarray \<Rightarrow> ndarray list" where
  "ref_zs [] a = []"
| "ref_zs ((b, w) # bws) a =
     spec_affine w a b # ref_zs bws (colmap sigmoid_real (spec_affine w a b))"

definition ref_activations :: "(ndarray \<times> ndarray) list \<Rightarrow> ndarray \<Rightarrow> ndarray list" where
  "ref_activations bws a = a # map (colmap sigmoid_real) (ref_zs bws a)"

text \<open>
  The errors of every layer from the weights, the pre-activations and the target: at the
  output layer \<open>delta = (a\<^sub>L - y) \<odot> sigmoid_prime(z\<^sub>L)\<close> with \<open>a\<^sub>L = sigmoid(z\<^sub>L)\<close>, at
  each layer before it \<open>delta\<^sub>i = (W\<^sub>i\<^sub>+\<^sub>1\<^sup>T \<cdot> delta\<^sub>i\<^sub>+\<^sub>1) \<odot> sigmoid_prime(z\<^sub>i)\<close>.
\<close>

fun ref_deltas :: "ndarray list \<Rightarrow> ndarray list \<Rightarrow> ndarray \<Rightarrow> ndarray list" where
  "ref_deltas [w] [z] y =
     [hadamard (vec_sub (colmap sigmoid_real z) y) (colmap sigmoid_prime_real z)]"
| "ref_deltas (w # w' # ws) (z # z' # zs) y =
     hadamard (tmat_vec w' (hd (ref_deltas (w' # ws) (z' # zs) y))) (colmap sigmoid_prime_real z)
       # ref_deltas (w' # ws) (z' # zs) y"
| "ref_deltas ws zs y = []"

text \<open>
  The unbatched reference: the gradient of one sample. The bias gradient of a layer is
  its \<open>delta\<close>, the weight gradient is \<open>delta\<close> times the transposed activation of the
  layer before.
\<close>

definition ref_backprop :: "Network \<Rightarrow> ndarray \<Rightarrow> ndarray \<Rightarrow> ndarray list \<times> ndarray list" where
  "ref_backprop nn x y =
     (let bws = zip (biases nn) (weights nn);
          deltas = ref_deltas (weights nn) (ref_zs bws x) y
      in (deltas, map2 outer deltas (ref_activations bws x)))"

text \<open>
  The quantities of a mini-batch, layer by layer, as stacks along the batch axis: the
  activations, the pre-activations and the errors of all samples; and the gradients of
  the mini-batch: for each layer, the sum over the batch axis of the per-sample
  gradients.
\<close>

definition batch_act :: "Network \<Rightarrow> sample list \<Rightarrow> nat \<Rightarrow> ndarray3" where
  "batch_act nn mini_batch t =
     map (\<lambda>(x, y). ref_activations (zip (biases nn) (weights nn)) (col x) ! t) mini_batch"

definition batch_z :: "Network \<Rightarrow> sample list \<Rightarrow> nat \<Rightarrow> ndarray3" where
  "batch_z nn mini_batch t =
     map (\<lambda>(x, y). ref_zs (zip (biases nn) (weights nn)) (col x) ! t) mini_batch"

definition batch_delta :: "Network \<Rightarrow> sample list \<Rightarrow> nat \<Rightarrow> ndarray3" where
  "batch_delta nn mini_batch t =
     map (\<lambda>(x, y). fst (ref_backprop nn (col x) (col y)) ! t) mini_batch"

definition grad_b :: "Network \<Rightarrow> sample list \<Rightarrow> nat \<Rightarrow> ndarray" where
  "grad_b nn mini_batch t = sum_axis0 (batch_delta nn mini_batch t)"

definition grad_w :: "Network \<Rightarrow> sample list \<Rightarrow> nat \<Rightarrow> ndarray" where
  "grad_w nn mini_batch t =
     sum_axis0 (map (\<lambda>(x, y). snd (ref_backprop nn (col x) (col y)) ! t) mini_batch)"

definition spec_batch_gradients :: "Network \<Rightarrow> sample list \<Rightarrow> ndarray list \<times> ndarray list" where
  "spec_batch_gradients nn mini_batch =
     (map (grad_b nn mini_batch) [0..<length (biases nn)],
      map (grad_w nn mini_batch) [0..<length (weights nn)])"

text \<open>The gradient lists after the output layer and \<open>j - 1\<close> rounds of the backward
  loop: the last \<open>j\<close> entries are set, the others are still the zeros of the
  initialisation.\<close>

definition partial_b :: "Network \<Rightarrow> sample list \<Rightarrow> nat \<Rightarrow> ndarray list" where
  "partial_b nn mini_batch j =
     map (\<lambda>t. if length (biases nn) - j \<le> t then grad_b nn mini_batch t
              else zeros_like (biases nn ! t)) [0..<length (biases nn)]"

definition partial_w :: "Network \<Rightarrow> sample list \<Rightarrow> nat \<Rightarrow> ndarray list" where
  "partial_w nn mini_batch j =
     map (\<lambda>t. if length (weights nn) - j \<le> t then grad_w nn mini_batch t
              else zeros_like (weights nn ! t)) [0..<length (weights nn)]"

text \<open>The inputs for which \<open>batch_backprop\<close> is specified and returns: a consistent
  network, a non-empty mini-batch of samples of the right lengths, and an input layer
  whose size differs from the output layer's.\<close>

definition backprop_ok :: "nat list \<Rightarrow> Network \<Rightarrow> sample list \<Rightarrow> bool" where
  "backprop_ok sizes nn mini_batch \<longleftrightarrow>
     wf_net sizes nn \<and> wf_batch sizes mini_batch \<and> mini_batch \<noteq> [] \<and> hd sizes \<noteq> last sizes"

text \<open>The index of the maximum entry, the lowest index winning a tie.\<close>

definition is_argmax :: "real list \<Rightarrow> nat \<Rightarrow> bool" where
  "is_argmax v p \<longleftrightarrow> p < length v \<and> (\<forall>j < length v. v ! j \<le> v ! p) \<and> (\<forall>j < p. v ! j < v ! p)"

text \<open>A sample is classified correctly when its label is the index of the maximum
  entry of the forward-pass output.\<close>

definition classified :: "Network \<Rightarrow> ndarray \<Rightarrow> int \<Rightarrow> bool" where
  "classified nn x y \<longleftrightarrow>
     (\<exists>out p. feedforward nn x = Inr out \<and> is_argmax (flatten out) p \<and> y = int p)"

section \<open>Example networks\<close>

text \<open>A network for the layer sizes \<open>[2, 1]\<close> and one for \<open>[1, 2]\<close>, with all parameters
  zero, and an input for each.\<close>

definition net21 :: Network where
  "net21 = \<lparr>num_layers = 2, biases = [Arr 1 [[0]]], weights = [Arr 2 [[0, 0]]]\<rparr>"

definition net12 :: Network where
  "net12 = \<lparr>num_layers = 2, biases = [Arr 1 [[0], [0]]], weights = [Arr 1 [[0], [0]]]\<rparr>"

definition in2 :: ndarray where
  "in2 = Arr 1 [[1], [2]]"

definition in1 :: ndarray where
  "in1 = Arr 1 [[1]]"

text \<open>A network for the layer sizes \<open>[2, 2]\<close> and the two samples of the toy dataset
  of the specification: the inputs \<open>[1, 0]\<close> and \<open>[0, 1]\<close> with matching one-hot
  targets.\<close>

definition net22 :: Network where
  "net22 = \<lparr>num_layers = 2, biases = [Arr 1 [[0], [0]]], weights = [Arr 2 [[0, 0], [0, 0]]]\<rparr>"

definition toy_a :: sample where
  "toy_a = ([1, 0], [1, 0])"

definition toy_b :: sample where
  "toy_b = ([0, 1], [0, 1])"

text \<open>Three training samples for the layer sizes \<open>[2, 1]\<close>.\<close>

definition sample_a :: sample where
  "sample_a = ([1, 0], [1])"

definition sample_b :: sample where
  "sample_b = ([0, 1], [0])"

definition sample_c :: sample where
  "sample_c = ([1, 1], [1])"

section \<open>Basic facts\<close>

lemma bindE_simps [simp]:
  "bindE (Inl e) f = Inl e"
  "bindE (Inr v) f = f v"
  by (simp_all add: bindE_def)

lemma bindE_eq_Inr: "bindE m f = Inr r \<longleftrightarrow> (\<exists>v. m = Inr v \<and> f v = Inr r)"
  by (cases m) simp_all

lemma nrows_mk [simp]: "nrows (mk r c f) = r"
  by (simp add: nrows_def mk_def)

lemma ncols_mk [simp]: "ncols (mk r c f) = c"
  by (simp add: mk_def)

lemma wf_mk [simp]: "wf_arr (mk r c f)"
  by (simp add: wf_arr_def mk_def list_all_iff)

lemma ent_mk [simp]: "i < r \<Longrightarrow> j < c \<Longrightarrow> ent (mk r c f) i j = f i j"
  by (simp add: ent_def mk_def)

lemma mk_cong: "(\<And>i j. i < r \<Longrightarrow> j < c \<Longrightarrow> f i j = g i j) \<Longrightarrow> mk r c f = mk r c g"
  by (simp add: mk_def)

lemma arr_eq_mk: "wf_arr a \<Longrightarrow> a = mk (nrows a) (ncols a) (ent a)"
proof -
  assume wf: "wf_arr a"
  have "rws a = map (\<lambda>i. map (\<lambda>j. rws a ! i ! j) [0..<ncols a]) [0..<length (rws a)]"
  proof (rule nth_equalityI)
    show "length (rws a) = length (map (\<lambda>i. map (\<lambda>j. rws a ! i ! j) [0..<ncols a]) [0..<length (rws a)])"
      by simp
  next
    fix i assume i: "i < length (rws a)"
    then have "length (rws a ! i) = ncols a"
      using wf by (simp add: wf_arr_def list_all_length)
    then have "rws a ! i = map (\<lambda>j. rws a ! i ! j) [0..<ncols a]"
      by (metis map_nth)
    with i show "rws a ! i = map (\<lambda>i. map (\<lambda>j. rws a ! i ! j) [0..<ncols a]) [0..<length (rws a)] ! i"
      by simp
  qed
  then show ?thesis
    by (cases a) (simp add: mk_def nrows_def ent_def)
qed

lemma arr_eqI:
  assumes "wf_arr a" "wf_arr b" "shape a = shape b"
    and "\<And>i j. i < nrows a \<Longrightarrow> j < ncols a \<Longrightarrow> ent a i j = ent b i j"
  shows "a = b"
proof -
  have "a = mk (nrows a) (ncols a) (ent a)" using assms(1) by (rule arr_eq_mk)
  also have "\<dots> = mk (nrows a) (ncols a) (ent b)" using assms(4) by (rule mk_cong)
  also have "\<dots> = b" using assms(2,3) arr_eq_mk[of b] by (simp add: shape_def)
  finally show ?thesis .
qed

lemma shape_mk [simp]: "shape (mk r c f) = (r, c)"
  by (simp add: shape_def)

lemma amap_mk: "amap f (mk r c g) = mk r c (\<lambda>i j. f (g i j))"
  by (simp add: amap_def mk_def)

lemma nrows_amap [simp]: "nrows (amap f a) = nrows a"
  by (simp add: amap_def nrows_def)

lemma ncols_amap [simp]: "ncols (amap f a) = ncols a"
  by (simp add: amap_def)

lemma wf_amap [simp]: "wf_arr (amap f a) = wf_arr a"
  by (simp add: amap_def wf_arr_def list_all_iff)

lemma ent_amap: "i < nrows a \<Longrightarrow> j < ncols a \<Longrightarrow> wf_arr a \<Longrightarrow> ent (amap f a) i j = f (ent a i j)"
  by (simp add: amap_def ent_def nrows_def wf_arr_def list_all_length)

lemma bdim_same [simp]: "bdim n n = Some n"
  by (simp add: bdim_def)

lemma bent_in_range: "i < nrows a \<Longrightarrow> j < ncols a \<Longrightarrow> bent a i j = ent a i j"
  by (auto simp: bent_def)

lemma np_binop_same_shape:
  "shape a = shape b \<Longrightarrow>
   np_binop f a b = Inr (mk (nrows a) (ncols a) (\<lambda>i j. f (ent a i j) (ent b i j)))"
  by (auto simp: np_binop_def shape_def bent_in_range intro!: mk_cong)

lemma sum_list_upt: "sum_list (map f [0..<n]) = (\<Sum>k<n. f k)"
  by (simp add: interv_sum_list_conv_sum_set_nat atLeast0LessThan)

lemma np_dot_ok:
  "ncols a = nrows b \<Longrightarrow>
   np_dot a b = Inr (mk (nrows a) (ncols b) (\<lambda>i j. \<Sum>k<ncols a. ent a i k * ent b k j))"
  by (simp add: np_dot_def sum_list_upt)

lemma affine_step:
  assumes "ncols w = nrows a" "ncols a = 1" "shape b = (nrows w, 1)"
  shows "bindE (np_dot w a) (\<lambda>wa. bindE (np_binop (+) wa b) (\<lambda>z. k z)) = k (spec_affine w a b)"
proof -
  let ?wa = "mk (nrows w) 1 (\<lambda>i j. \<Sum>k<ncols w. ent w i k * ent a k j)"
  have 1: "np_dot w a = Inr ?wa" using assms(1,2) by (simp add: np_dot_ok)
  have "shape ?wa = shape b" using assms(3) by simp
  then have 2: "np_binop (+) ?wa b = Inr (mk (nrows w) 1 (\<lambda>i j. ent ?wa i j + ent b i j))"
    by (simp add: np_binop_same_shape)
  have 3: "mk (nrows w) 1 (\<lambda>i j. ent ?wa i j + ent b i j) = spec_affine w a b"
    unfolding spec_affine_def by (rule mk_cong) simp
  show ?thesis by (simp only: 1 2 3 bindE_simps)
qed

lemma sigmoid_spec_affine:
  "sigmoid (spec_affine w a b) = mk (nrows w) 1 (\<lambda>i j. sigmoid_real (ent (spec_affine w a b) i 0))"
  unfolding sigmoid_def spec_affine_def amap_mk by (rule mk_cong) simp

lemma feedforward_loop_spec:
  "chain_ok n bws \<Longrightarrow> shape a = (n, 1) \<Longrightarrow>
   feedforward_loop bws a = Inr (spec_forward (map (\<lambda>(b, w). (w, b)) bws) a)"
proof (induction bws arbitrary: n a)
  case Nil
  then show ?case by simp
next
  case (Cons bw bws)
  obtain b w where bw: "bw = (b, w)" by (cases bw)
  from Cons.prems have ok: "ncols w = n" "shape b = (nrows w, 1)" "chain_ok (nrows w) bws"
    by (simp_all add: bw)
  from Cons.prems(2) have a: "nrows a = n" "ncols a = 1" by (simp_all add: shape_def)
  have "feedforward_loop (bw # bws) a = feedforward_loop bws (sigmoid (spec_affine w a b))"
    unfolding bw feedforward_loop.simps
    by (rule affine_step) (simp_all add: ok a)
  also have "\<dots> = Inr (spec_forward (map (\<lambda>(b, w). (w, b)) bws) (sigmoid (spec_affine w a b)))"
    by (rule Cons.IH[OF ok(3)]) (simp add: sigmoid_spec_affine)
  finally show ?case by (simp add: bw sigmoid_spec_affine)
qed

section \<open>The sigmoid and the forward pass\<close>

lemma sigmoid_real_bounds: "0 < sigmoid_real z \<and> sigmoid_real z < 1"
proof -
  have e: "0 < exp (- z)" by simp
  have p: "0 < 1 + exp (- z)" using e by linarith
  have "1 / (1 + exp (- z)) < 1" using e p by (subst divide_less_eq_1_pos) linarith+
  with p show ?thesis unfolding sigmoid_real_def by simp
qed

lemma flatten_sigmoid: "v \<in> set (flatten (sigmoid z)) \<Longrightarrow> 0 < v \<and> v < 1"
  by (auto simp: flatten_def sigmoid_def amap_def sigmoid_real_bounds)

lemma feedforward_loop_last:
  "feedforward_loop bws a = Inr out \<Longrightarrow> bws \<noteq> [] \<Longrightarrow> \<exists>z. out = sigmoid z"
proof (induction bws arbitrary: a)
  case Nil
  then show ?case by simp
next
  case (Cons bw bws)
  obtain b w where bw: "bw = (b, w)" by (cases bw)
  from Cons.prems(1) obtain wa z where
    z: "np_dot w a = Inr wa" "np_binop (+) wa b = Inr z" "feedforward_loop bws (sigmoid z) = Inr out"
    by (auto simp: bw bindE_eq_Inr)
  show ?case
  proof (cases "bws = []")
    case True
    with z(3) show ?thesis by auto
  next
    case False
    with Cons.IH z(3) show ?thesis by blast
  qed
qed

lemma wf_net_chain_gen:
  "sizes \<noteq> [] \<Longrightarrow> length ws = length sizes - 1 \<Longrightarrow> length bs = length sizes - 1 \<Longrightarrow>
   (\<forall>i < length sizes - 1.
      wf_arr (ws ! i) \<and> shape (ws ! i) = (sizes ! Suc i, sizes ! i) \<and>
      wf_arr (bs ! i) \<and> shape (bs ! i) = (sizes ! Suc i, 1)) \<Longrightarrow>
   chain_ok (hd sizes) (zip bs ws) \<and>
   (\<forall>a. shape a = (hd sizes, 1) \<longrightarrow> shape (spec_forward (zip ws bs) a) = (last sizes, 1))"
proof (induction sizes arbitrary: ws bs)
  case Nil
  then show ?case by simp
next
  case (Cons s rest)
  show ?case
  proof (cases rest)
    case Nil
    with Cons.prems show ?thesis by simp
  next
    case (Cons s' rest')
    from Cons.prems(2,3) Cons obtain w ws' b bs' where
      ws: "ws = w # ws'" and bs: "bs = b # bs'"
      by (cases ws; cases bs) simp_all
    have len: "length ws' = length rest - 1" "length bs' = length rest - 1"
      using Cons.prems(2,3) ws bs by simp_all
    have all: "\<forall>i < length rest. wf_arr (ws ! i) \<and> shape (ws ! i) = ((s # rest) ! Suc i, (s # rest) ! i) \<and>
      wf_arr (bs ! i) \<and> shape (bs ! i) = ((s # rest) ! Suc i, 1)"
      using Cons.prems(4) by simp
    have 0: "wf_arr w" "shape w = (s', s)" "wf_arr b" "shape b = (s', 1)"
      using all[rule_format, of 0] Cons ws bs by simp_all
    have rest_ok: "\<forall>i < length rest - 1.
      wf_arr (ws' ! i) \<and> shape (ws' ! i) = (rest ! Suc i, rest ! i) \<and>
      wf_arr (bs' ! i) \<and> shape (bs' ! i) = (rest ! Suc i, 1)"
    proof (intro allI impI)
      fix i assume "i < length rest - 1"
      then have "Suc i < length rest" by simp
      from all[rule_format, OF this] show "wf_arr (ws' ! i) \<and> shape (ws' ! i) = (rest ! Suc i, rest ! i) \<and>
        wf_arr (bs' ! i) \<and> shape (bs' ! i) = (rest ! Suc i, 1)"
        by (simp add: ws bs)
    qed
    have rne: "rest \<noteq> []" using Cons by simp
    note IH = Cons.IH[OF rne len rest_ok]
    have hd_rest: "hd rest = s'" using Cons by simp
    have nr: "nrows w = s'" "ncols w = s" using 0(2) by (simp_all add: shape_def)
    have c: "chain_ok (hd (s # rest)) (zip bs ws)"
      using IH 0 nr by (simp add: ws bs hd_rest)
    have sh: "\<forall>a. shape a = (hd (s # rest), 1) \<longrightarrow> shape (spec_forward (zip ws bs) a) = (last (s # rest), 1)"
    proof (intro allI impI)
      fix a :: ndarray
      have "shape (mk (nrows w) 1 (\<lambda>i j. sigmoid_real (ent (spec_affine w a b) i 0))) = (hd rest, 1)"
        by (simp add: nr hd_rest)
      with IH have "shape (spec_forward (zip ws' bs') (mk (nrows w) 1 (\<lambda>i j. sigmoid_real (ent (spec_affine w a b) i 0))))
        = (last rest, 1)" by blast
      then show "shape (spec_forward (zip ws bs) a) = (last (s # rest), 1)"
        using rne by (simp add: ws bs)
    qed
    from c sh show ?thesis by blast
  qed
qed

lemma wf_net_chain: "wf_net sizes nn \<Longrightarrow> chain_ok (hd sizes) (zip (biases nn) (weights nn))"
  using wf_net_chain_gen[of sizes "weights nn" "biases nn"] by (simp add: wf_net_def)

lemma wf_net_forward_shape:
  "wf_net sizes nn \<Longrightarrow> shape a = (hd sizes, 1) \<Longrightarrow>
   shape (spec_forward (zip (weights nn) (biases nn)) a) = (last sizes, 1)"
  using wf_net_chain_gen[of sizes "weights nn" "biases nn"] by (simp add: wf_net_def)

lemma zip_swap: "map (\<lambda>(b, w). (w, b)) (zip bs ws) = zip ws bs"
  by (induction bs arbitrary: ws) (auto simp: zip_Cons1 split: list.splits)

lemma feedforward_wf:
  "wf_net sizes nn \<Longrightarrow> shape a = (hd sizes, 1) \<Longrightarrow>
   feedforward nn a = Inr (spec_forward (zip (weights nn) (biases nn)) a)"
  unfolding feedforward_def
  using feedforward_loop_spec[OF wf_net_chain, of sizes nn a] by (simp add: zip_swap)

text \<open>
  Claim C3. For a network consistent with the layer sizes and an input column vector of
  length \<open>sizes[0]\<close>, \<open>feedforward\<close> raises nothing and returns what the specification's
  algorithm computes: for each transition in order \<open>z = W\<cdot>a + b\<close>, then
  \<open>a = sigmoid(z)\<close>; the result is a column vector of length \<open>sizes[L-1]\<close>. The
  function reads the network and returns an array only: it assigns to its local \<open>a\<close>
  and to nothing of \<open>nn\<close>, so the model has no network to return.
\<close>

theorem feedforward_spec:
  assumes "wf_net sizes nn" and "wf_arr a" and "shape a = (hd sizes, 1)"
  shows "feedforward nn a = Inr (spec_forward (zip (weights nn) (biases nn)) a) \<and>
         shape (spec_forward (zip (weights nn) (biases nn)) a) = (last sizes, 1)"
  using assms by (simp add: feedforward_wf wf_net_forward_shape)

lemma wf_net21: "wf_net [2, 1] net21"
  by (simp add: wf_net_def net21_def wf_arr_def shape_def nrows_def)

lemma wf_net12: "wf_net [1, 2] net12"
  by (simp add: wf_net_def net12_def wf_arr_def shape_def nrows_def)

lemmas eval_arr = np_dot_def nrows_def mk_def np_binop_def bdim_def bent_def ent_def
  sigmoid_def amap_def sigmoid_real_def shape_def wf_arr_def flatten_def

lemma feedforward_net21: "feedforward net21 in2 = Inr (Arr 1 [[1 / 2]])"
  by (simp add: feedforward_def net21_def in2_def eval_arr eval_nat_numeral)

lemma feedforward_net12: "feedforward net12 in1 = Inr (Arr 1 [[1 / 2], [1 / 2]])"
  by (simp add: feedforward_def net12_def in1_def eval_arr eval_nat_numeral)

theorem feedforward_spec_witness:
  "wf_net [2, 1] net21 \<and> wf_arr in2 \<and> shape in2 = (hd [2, 1], 1) \<and>
   feedforward net21 in2 = Inr (spec_forward (zip (weights net21) (biases net21)) in2) \<and>
   spec_forward (zip (weights net21) (biases net21)) in2 = Arr 1 [[1 / 2]] \<and>
   shape (spec_forward (zip (weights net21) (biases net21)) in2) = (last [2, 1], 1)"
proof -
  have a: "wf_arr in2" "shape in2 = (hd [2, 1], 1)"
    by (simp_all add: in2_def wf_arr_def shape_def nrows_def)
  from feedforward_spec[OF wf_net21 a] feedforward_net21 wf_net21 a show ?thesis by simp
qed

text \<open>
  Claim C10. Over the reals, when the network has at least one layer transition, every
  entry of an array that \<open>feedforward\<close> returns lies strictly between 0 and 1: the
  array is a sigmoid output.
\<close>

theorem feedforward_range:
  assumes "biases nn \<noteq> []" and "weights nn \<noteq> []" and "feedforward nn a = Inr out"
  shows "\<forall>v \<in> set (flatten out). 0 < v \<and> v < 1"
proof -
  from assms(1,2) have "zip (biases nn) (weights nn) \<noteq> []"
    by (cases "biases nn"; cases "weights nn") simp_all
  with assms(3) obtain z where "out = sigmoid z"
    unfolding feedforward_def using feedforward_loop_last by blast
  then show ?thesis using flatten_sigmoid by blast
qed

theorem feedforward_range_witness:
  "biases net12 \<noteq> [] \<and> weights net12 \<noteq> [] \<and>
   feedforward net12 in1 = Inr (Arr 1 [[1 / 2], [1 / 2]]) \<and>
   list_all (\<lambda>v. 0 < v \<and> v < 1) (flatten (Arr 1 [[1 / 2], [1 / 2]]))"
proof -
  have ne: "biases net12 \<noteq> []" "weights net12 \<noteq> []" by (simp_all add: net12_def)
  from feedforward_range[OF ne feedforward_net12] ne feedforward_net12 show ?thesis
    by (simp add: list_all_iff)
qed

section \<open>Evaluation\<close>

lemma argmax_scan_spec:
  "is_argmax pre idx \<Longrightarrow> mp = pre ! idx \<Longrightarrow> i = length pre \<Longrightarrow>
   is_argmax (pre @ vs) (argmax_scan vs i mp idx)"
proof (induction vs arbitrary: pre idx mp i)
  case Nil
  then show ?case by simp
next
  case (Cons v vs)
  from Cons.prems(1) have idx: "idx < length pre"
    and mx: "\<And>j. j < length pre \<Longrightarrow> pre ! j \<le> pre ! idx"
    and st: "\<And>j. j < idx \<Longrightarrow> pre ! j < pre ! idx"
    by (auto simp: is_argmax_def)
  show ?case
  proof (cases "v > mp")
    case True
    have "is_argmax (pre @ [v]) (length pre)"
      unfolding is_argmax_def
    proof (intro conjI allI impI)
      show "length pre < length (pre @ [v])" by simp
    next
      fix j assume "j < length (pre @ [v])"
      then show "(pre @ [v]) ! j \<le> (pre @ [v]) ! length pre"
        using mx[of j] True Cons.prems(2) by (cases "j < length pre") (auto simp: nth_append)
    next
      fix j assume "j < length pre"
      then show "(pre @ [v]) ! j < (pre @ [v]) ! length pre"
        using mx[of j] True Cons.prems(2) by (auto simp: nth_append)
    qed
    from Cons.IH[OF this, of v "Suc i"] True Cons.prems(3) show ?thesis by simp
  next
    case False
    have "is_argmax (pre @ [v]) idx"
      unfolding is_argmax_def
    proof (intro conjI allI impI)
      show "idx < length (pre @ [v])" using idx by simp
    next
      fix j assume "j < length (pre @ [v])"
      then show "(pre @ [v]) ! j \<le> (pre @ [v]) ! idx"
        using mx[of j] False Cons.prems(2) idx by (cases "j < length pre") (auto simp: nth_append)
    next
      fix j assume "j < idx"
      then show "(pre @ [v]) ! j < (pre @ [v]) ! idx"
        using st[of j] idx by (auto simp: nth_append)
    qed
    from Cons.IH[OF this, of mp "Suc i"] False Cons.prems(2,3) idx show ?thesis
      by (simp add: nth_append)
  qed
qed

lemma np_argmax_spec:
  assumes "flatten a \<noteq> []"
  shows "\<exists>p. np_argmax a = Inr (int p) \<and> is_argmax (flatten a) p"
proof -
  from assms obtain v vs where f: "flatten a = v # vs" by (cases "flatten a") auto
  have "is_argmax [v] 0" by (simp add: is_argmax_def)
  from argmax_scan_spec[OF this, of v 1 vs] have "is_argmax (v # vs) (argmax_scan vs 1 v 0)" by simp
  then show ?thesis by (simp add: np_argmax_def f)
qed

lemma is_argmax_unique: "is_argmax v p \<Longrightarrow> is_argmax v q \<Longrightarrow> p = q"
  unfolding is_argmax_def by (metis linorder_neqE_nat not_less)

lemma predict_classified:
  assumes "feedforward nn x = Inr out" "flatten out \<noteq> []"
  shows "\<exists>p. bindE (feedforward nn x) (\<lambda>out. bindE (np_argmax out) (\<lambda>p. Inr (p, y))) = Inr (p, y)
           \<and> (p = y \<longleftrightarrow> classified nn x y)"
proof -
  from np_argmax_spec[OF assms(2)] obtain p where
    p: "np_argmax out = Inr (int p)" "is_argmax (flatten out) p" by blast
  have "int p = y \<longleftrightarrow> classified nn x y"
    unfolding classified_def using assms(1) p(2) is_argmax_unique by auto
  then show ?thesis using assms(1) p(1) by auto
qed

lemma evaluate_counts_aux:
  assumes "\<forall>(x, y) \<in> set test_data. \<exists>out. feedforward nn x = Inr out \<and> flatten out \<noteq> []"
  shows "\<exists>rs. mapE (\<lambda>(x, y). bindE (feedforward nn x) (\<lambda>out. bindE (np_argmax out) (\<lambda>p. Inr (p, y))))
           test_data = Inr rs \<and>
         sum_list (map (\<lambda>(x, y). if x = y then 1 else 0) rs)
           = int (length (filter (\<lambda>(x, y). classified nn x y) test_data))"
  using assms
proof (induction test_data)
  case Nil
  then show ?case by simp
next
  case (Cons t ts)
  obtain x y where t: "t = (x, y)" by (cases t)
  from Cons.prems obtain out where out: "feedforward nn x = Inr out" "flatten out \<noteq> []"
    by (auto simp: t)
  from predict_classified[OF out, of y] obtain p where
    p: "bindE (feedforward nn x) (\<lambda>out. bindE (np_argmax out) (\<lambda>p. Inr (p, y))) = Inr (p, y)"
       "p = y \<longleftrightarrow> classified nn x y" by blast
  from Cons.IH Cons.prems obtain rs where
    rs: "mapE (\<lambda>(x, y). bindE (feedforward nn x) (\<lambda>out. bindE (np_argmax out) (\<lambda>p. Inr (p, y)))) ts = Inr rs"
        "sum_list (map (\<lambda>(x, y). if x = y then 1 else 0) rs)
           = int (length (filter (\<lambda>(x, y). classified nn x y) ts))"
    by auto
  show ?case using p rs by (simp add: t)
qed

text \<open>
  Claim C7. When the forward pass of every sample returns a non-empty array, \<open>evaluate\<close>
  returns the number of samples whose label is the index of the maximum entry of the
  forward-pass output, the lowest index winning a tie (\<open>is_argmax\<close>, which
  \<open>np.argmax\<close> computes); so it returns the size of the dataset when every sample is
  classified correctly and 0 when none is.
\<close>

theorem evaluate_counts:
  assumes "\<forall>(x, y) \<in> set test_data. \<exists>out. feedforward nn x = Inr out \<and> flatten out \<noteq> []"
  shows "evaluate nn test_data
           = Inr (int (length (filter (\<lambda>(x, y). classified nn x y) test_data))) \<and>
         ((\<forall>(x, y) \<in> set test_data. classified nn x y) \<longrightarrow>
            evaluate nn test_data = Inr (int (length test_data))) \<and>
         ((\<forall>(x, y) \<in> set test_data. \<not> classified nn x y) \<longrightarrow> evaluate nn test_data = Inr 0)"
proof -
  from evaluate_counts_aux[OF assms] have
    e: "evaluate nn test_data = Inr (int (length (filter (\<lambda>(x, y). classified nn x y) test_data)))"
    unfolding evaluate_def by auto
  have all: "(\<forall>(x, y) \<in> set test_data. classified nn x y) \<Longrightarrow>
      filter (\<lambda>(x, y). classified nn x y) test_data = test_data"
    by (rule filter_True) auto
  have none: "(\<forall>(x, y) \<in> set test_data. \<not> classified nn x y) \<Longrightarrow>
      filter (\<lambda>(x, y). classified nn x y) test_data = []"
    by (rule filter_False) auto
  show ?thesis using e all none by auto
qed

lemma evaluate_net12: "evaluate net12 [(in1, 0), (in1, 1)] = Inr 1"
  by (simp add: evaluate_def feedforward_net12 np_argmax_def flatten_def)

theorem evaluate_counts_witness:
  "feedforward net12 in1 = Inr (Arr 1 [[1 / 2], [1 / 2]]) \<and>
   flatten (Arr 1 [[1 / 2], [1 / 2]]) \<noteq> [] \<and>
   evaluate net12 [(in1, 0), (in1, 1)] = Inr 1 \<and>
   length (filter (\<lambda>(x, y). classified net12 x y) [(in1, 0), (in1, 1)]) = 1 \<and>
   evaluate net12 [(in1, 0), (in1, 0)] = Inr 2 \<and>
   evaluate net12 [(in1, 1), (in1, 1)] = Inr 0"
proof -
  have h: "\<forall>(x, y) \<in> set [(in1, 0), (in1, 1::int)].
             \<exists>out. feedforward net12 x = Inr out \<and> flatten out \<noteq> []"
    by (simp add: feedforward_net12 flatten_def)
  from evaluate_counts[OF h] evaluate_net12
  have "length (filter (\<lambda>(x, y). classified net12 x y) [(in1, 0), (in1, 1)]) = 1"
    by simp
  moreover have "evaluate net12 [(in1, 0), (in1, 0)] = Inr 2"
    by (simp add: evaluate_def feedforward_net12 np_argmax_def flatten_def)
  moreover have "evaluate net12 [(in1, 1), (in1, 1)] = Inr 0"
    by (simp add: evaluate_def feedforward_net12 np_argmax_def flatten_def)
  ultimately show ?thesis using evaluate_net12 feedforward_net12 by (simp add: flatten_def)
qed

section \<open>The learning function: shuffling, zero batch size\<close>

lemma shuffle_loop_perm:
  "\<forall>i \<in> set is. i < length x \<Longrightarrow>
   mset (fst (shuffle_loop is g x)) = mset x \<and> length (fst (shuffle_loop is g x)) = length x"
proof (induction "is" arbitrary: g x)
  case Nil
  then show ?case by simp
next
  case (Cons i "is")
  let ?j = "g 0 mod (i + 1)"
  let ?x = "x[i := x ! ?j, ?j := x ! i]"
  have i: "i < length x" using Cons.prems by simp
  then have j: "?j < length x"
    by (metis Suc_eq_plus1 le_less_trans less_Suc_eq_le mod_less_divisor zero_less_Suc)
  have m: "mset ?x = mset x" using i j by (simp add: mset_swap)
  have "\<forall>k \<in> set is. k < length ?x" using Cons.prems by simp
  from Cons.IH[OF this] m show ?case by (simp add: randbelow_def)
qed

lemma shuffle_perm:
  "mset (fst (shuffle g x)) = mset x \<and> length (fst (shuffle g x)) = length x"
  unfolding shuffle_def by (rule shuffle_loop_perm) auto

lemma data_epoch:
  "data (snd (epoch n m eta test s j)) = fst (shuffle (rng s) (data s))"
  by (simp add: epoch_def Let_def split: prod.splits sum.splits option.splits list.splits)

lemma epochs_loop_mset:
  "(\<And>s j. mset (data (snd (body s j))) = mset (data s)) \<Longrightarrow>
   mset (data (snd (epochs_loop body s js))) = mset (data s)"
proof (induction js arbitrary: s)
  case Nil
  then show ?case by simp
next
  case (Cons j js)
  obtain r s' where b: "body s j = (r, s')" by (cases "body s j")
  from Cons.prems[of s j] b have s': "mset (data s') = mset (data s)" by simp
  show ?case
  proof (cases r)
    case None
    with Cons.IH[OF Cons.prems, of s'] b s' show ?thesis by simp
  next
    case (Some e)
    with b s' show ?thesis by simp
  qed
qed

text \<open>
  Claim C9. \<open>learn\<close> reorders the caller's list \<open>training_data\<close> itself: each epoch
  leaves in it the list that \<open>random.shuffle\<close> made of it, a permutation. So when
  \<open>learn\<close> ends (with or without an exception) the list holds exactly the original
  samples, as a multiset: none added, removed or changed.
\<close>

theorem learn_permutes:
  "mset (data (snd (learn nn training_data epochs mini_batch_size eta test_data g)))
     = mset training_data \<and>
   data (snd (epoch n mini_batch_size eta test_data s j)) = fst (shuffle (rng s) (data s)) \<and>
   mset (fst (shuffle (rng s) (data s))) = mset (data s)"
proof -
  have "mset (data (snd (learn nn training_data epochs mini_batch_size eta test_data g)))
     = mset (data \<lparr>net = nn, data = training_data, rng = g, printed = []\<rparr>)"
    unfolding learn_def Let_def
    by (rule epochs_loop_mset) (simp add: data_epoch shuffle_perm)
  then show ?thesis by (simp add: data_epoch shuffle_perm)
qed

lemma unpack_batch_Nil: "unpack_batch [] = Inl ValueError"
  by (simp add: unpack_batch_def)

lemma batch_backprop_Nil: "batch_backprop nn [] = Inl ValueError"
  by (simp add: batch_backprop_def unpack_batch_Nil)

lemma mapE_Inl: "mapE f xs = Inl e \<Longrightarrow> \<exists>x \<in> set xs. f x = Inl e"
proof (induction xs)
  case Nil
  then show ?case by simp
next
  case (Cons x xs)
  then show ?case
    by (cases "f x"; cases "mapE f xs") auto
qed

lemma np_binop_error: "np_binop f a b = Inl e \<Longrightarrow> e = ValueError"
  by (auto simp: np_binop_def split: option.splits)

lemma sgd_step_error: "0 < m \<Longrightarrow> sgd_step eta m ps ns = Inl e \<Longrightarrow> e = ValueError"
  unfolding sgd_step_def
  by (drule mapE_Inl) (auto simp: py_truediv_def dest: np_binop_error)

lemma bindE_eq_Inl: "bindE m f = Inl e \<longleftrightarrow> m = Inl e \<or> (\<exists>v. m = Inr v \<and> f v = Inl e)"
  by (cases m) simp_all

lemma mapE_nz:
  "(\<And>x. f x \<noteq> Inl ZeroDivisionError) \<Longrightarrow> mapE f xs \<noteq> Inl ZeroDivisionError"
  using mapE_Inl by fastforce

lemma foldE_nz:
  "(\<And>s x. f s x \<noteq> Inl ZeroDivisionError) \<Longrightarrow> foldE f s xs \<noteq> Inl ZeroDivisionError"
  by (induction xs arbitrary: s) (auto simp: bindE_eq_Inl)

lemma py_index_nz: "py_index xs i \<noteq> Inl ZeroDivisionError"
  by (simp add: py_index_def)

lemma py_get_nz: "py_get xs i \<noteq> Inl ZeroDivisionError"
  by (simp add: py_get_def bindE_eq_Inl py_index_nz)

lemma py_set_nz: "py_set xs i v \<noteq> Inl ZeroDivisionError"
  by (simp add: py_set_def bindE_eq_Inl py_index_nz)

lemma np_binop_nz: "np_binop f a b \<noteq> Inl ZeroDivisionError"
  using np_binop_error by fastforce

lemma np_dot_nz: "np_dot a b \<noteq> Inl ZeroDivisionError"
  by (simp add: np_dot_def)

lemma np_binop32_nz: "np_binop32 f as b \<noteq> Inl ZeroDivisionError"
  unfolding np_binop32_def by (intro mapE_nz np_binop_nz)

lemma np_binop33_nz: "np_binop33 f as bs \<noteq> Inl ZeroDivisionError"
  unfolding np_binop33_def by (auto intro!: mapE_nz simp: np_binop_nz)

lemma np_matmul23_nz: "np_matmul23 w as \<noteq> Inl ZeroDivisionError"
  unfolding np_matmul23_def by (intro mapE_nz np_dot_nz)

lemma np_matmul33_nz: "np_matmul33 as bs \<noteq> Inl ZeroDivisionError"
  unfolding np_matmul33_def by (auto intro!: mapE_nz simp: np_dot_nz)

lemma np_stack_nz: "np_stack as \<noteq> Inl ZeroDivisionError"
  by (simp add: np_stack_def split: list.splits)

lemma unpack_batch_nz: "unpack_batch mb \<noteq> Inl ZeroDivisionError"
  by (simp add: unpack_batch_def split: list.splits prod.splits)

lemmas prim_nz = py_get_nz py_set_nz np_binop32_nz np_binop33_nz np_matmul23_nz np_matmul33_nz
  np_stack_nz unpack_batch_nz

lemma forward_pass_nz: "forward_pass bws a as zs \<noteq> Inl ZeroDivisionError"
  by (induction bws a as zs rule: forward_pass.induct)
     (auto simp: bindE_eq_Inl prim_nz)

lemma backward_step_nz: "backward_step nn zs as s i \<noteq> Inl ZeroDivisionError"
  unfolding backward_step_def
  by (auto split: prod.splits simp: bindE_eq_Inl prim_nz)

lemma batch_backprop_nz: "batch_backprop nn mb \<noteq> Inl ZeroDivisionError"
  unfolding batch_backprop_def Let_def cost_derivative_def
  by (auto split: prod.splits
      simp: bindE_eq_Inl prim_nz forward_pass_nz foldE_nz[OF backward_step_nz])

lemma sgd_step_error': "mb \<noteq> [] \<Longrightarrow> sgd_step eta (length mb) ps ns = Inl e \<Longrightarrow> e = ValueError"
  by (rule sgd_step_error[of "length mb"]) simp_all

lemma sgd_no_zero_division:
  "fst (batch_stochastic_gradient_descent nn mini_batch eta) \<noteq> Some ZeroDivisionError"
proof (cases mini_batch)
  case Nil
  then show ?thesis
    by (simp add: batch_stochastic_gradient_descent_def batch_backprop_Nil)
next
  case (Cons a list)
  then have ne: "mini_batch \<noteq> []" by simp
  show ?thesis
    unfolding batch_stochastic_gradient_descent_def
    using batch_backprop_nz[of nn mini_batch]
    by (auto split: sum.splits prod.splits dest: sgd_step_error'[OF ne])
qed

text \<open>
  Claim C6. With a positive number of epochs and mini-batch size zero, \<open>learn\<close> raises
  \<open>ValueError\<close> (from \<open>range\<close> with step zero) in its first epoch: the training data
  has been shuffled, the network is the one passed in, nothing was printed. And no call
  of the update rule, on any network, mini-batch and learning rate, ends in a division
  by zero: on the empty mini-batch \<open>batch_backprop\<close> raises first.
\<close>

theorem learn_zero_batch_size:
  assumes "0 < epochs"
  shows "learn nn training_data epochs 0 eta test_data g
           = (Some ValueError,
              \<lparr>net = nn, data = fst (shuffle g training_data),
               rng = snd (shuffle g training_data), printed = []\<rparr>) \<and>
         fst (batch_stochastic_gradient_descent nn' mini_batch eta') \<noteq> Some ZeroDivisionError"
proof -
  from assms have "[0..epochs - 1] = 0 # [1..epochs - 1]"
    by (simp add: upto_rec1)
  then show ?thesis
    by (simp add: learn_def epoch_def mini_batches_def py_range_def sgd_no_zero_division
        split: prod.splits)
qed

section \<open>The partition into mini-batches\<close>













section \<open>The learning function on the example samples\<close>

lemma shuffle_abc: "fst (shuffle (\<lambda>k. 0) [sample_a, sample_b, sample_c]) = [sample_b, sample_c, sample_a]"
  by code_simp

lemma shuffle_ab: "fst (shuffle (\<lambda>k. 0) [sample_a, sample_b]) = [sample_b, sample_a]"
  by code_simp


theorem learn_zero_batch_size_witness:
  "(0::int) < 1 \<and>
   fst (learn net21 [sample_a, sample_b] 1 0 3 None (\<lambda>k. 0)) = Some ValueError \<and>
   net (snd (learn net21 [sample_a, sample_b] 1 0 3 None (\<lambda>k. 0))) = net21 \<and>
   data (snd (learn net21 [sample_a, sample_b] 1 0 3 None (\<lambda>k. 0))) = [sample_b, sample_a] \<and>
   fst (batch_stochastic_gradient_descent net21 [] 3) \<noteq> Some ZeroDivisionError"
proof -
  have e: "(0::int) < 1" by simp
  from learn_zero_batch_size[OF e, of net21 "[sample_a, sample_b]" 3 None "\<lambda>k. 0" net21 "[]" 3]
  show ?thesis by (simp add: shuffle_ab)
qed

theorem learn_permutes_witness:
  "data (snd (learn net21 [sample_a, sample_b] 1 0 3 None (\<lambda>k. 0))) = [sample_b, sample_a] \<and>
   mset [sample_b, sample_a] = mset [sample_a, sample_b]"
proof -
  have "fst (shuffle (\<lambda>k. 0) [sample_a, sample_b]) = [sample_b, sample_a] \<Longrightarrow>
    data (snd (learn net21 [sample_a, sample_b] 1 0 3 None (\<lambda>k. 0))) = [sample_b, sample_a]"
    by (auto simp: learn_def epoch_def mini_batches_def py_range_def upto_rec1 split: prod.splits)
  from this[OF shuffle_ab]
  have "data (snd (learn net21 [sample_a, sample_b] 1 0 3 None (\<lambda>k. 0))) = [sample_b, sample_a]" .
  with learn_permutes[of net21 "[sample_a, sample_b]" 1 0 3 None "\<lambda>k. 0"] show ?thesis
    by simp
qed

section \<open>Operations on stacks\<close>

lemma mapE_map:
  "(\<And>x. x \<in> set xs \<Longrightarrow> f (h x) = Inr (g x)) \<Longrightarrow> mapE f (map h xs) = Inr (map g xs)"
  by (induction xs) simp_all

lemma zip_map_same: "zip (map f xs) (map g xs) = map (\<lambda>x. (f x, g x)) xs"
  by (induction xs) simp_all

lemma np_binop33_map:
  assumes "\<And>s. s \<in> set mb \<Longrightarrow> np_binop f (F s) (G s) = Inr (H s)"
  shows "np_binop33 f (map F mb) (map G mb) = Inr (map H mb)"
proof -
  have "mapE (\<lambda>(a, b). np_binop f a b) (map (\<lambda>s. (F s, G s)) mb) = Inr (map H mb)"
    by (rule mapE_map) (simp add: assms)
  then show ?thesis by (simp add: np_binop33_def zip_map_same)
qed

lemma np_matmul33_map:
  assumes "\<And>s. s \<in> set mb \<Longrightarrow> np_dot (F s) (G s) = Inr (H s)"
  shows "np_matmul33 (map F mb) (map G mb) = Inr (map H mb)"
proof -
  have "mapE (\<lambda>(a, b). np_dot a b) (map (\<lambda>s. (F s, G s)) mb) = Inr (map H mb)"
    by (rule mapE_map) (simp add: assms)
  then show ?thesis by (simp add: np_matmul33_def zip_map_same)
qed

lemma np_matmul23_map:
  assumes "\<And>s. s \<in> set mb \<Longrightarrow> np_dot w (F s) = Inr (H s)"
  shows "np_matmul23 w (map F mb) = Inr (map H mb)"
  unfolding np_matmul23_def by (rule mapE_map) (simp add: assms)

lemma np_binop32_map:
  assumes "\<And>s. s \<in> set mb \<Longrightarrow> np_binop f (F s) b = Inr (H s)"
  shows "np_binop32 f (map F mb) b = Inr (map H mb)"
  unfolding np_binop32_def by (rule mapE_map) (simp add: assms)

lemma sum_axis0_map:
  assumes "mb \<noteq> []" "shape (F (hd mb)) = (r, c)"
  shows "sum_axis0 (map F mb) = mk r c (\<lambda>i j. \<Sum>s\<leftarrow>mb. ent (F s) i j)"
proof -
  from assms(1) obtain s rest where mb: "mb = s # rest" by (cases mb) auto
  with assms(2) have "nrows (F s) = r" "ncols (F s) = c" by (simp_all add: shape_def)
  then show ?thesis by (simp add: mb comp_def)
qed

section \<open>The operations of one sample\<close>

lemma sigmoid_col:
  "wf_arr z \<Longrightarrow> ncols z = 1 \<Longrightarrow> sigmoid z = colmap sigmoid_real z"
proof -
  assume wf: "wf_arr z" and c: "ncols z = 1"
  have "sigmoid z = amap sigmoid_real (mk (nrows z) 1 (ent z))"
    using arr_eq_mk[OF wf] c by (simp add: sigmoid_def)
  also have "\<dots> = colmap sigmoid_real z"
    unfolding amap_mk colmap_def by (rule mk_cong) simp
  finally show ?thesis .
qed

lemma ew2_mk: "ew2 f (mk r c g) (mk r c h) = mk r c (\<lambda>i j. f (g i j) (h i j))"
  by (simp add: ew2_def mk_def map2_map_map)

lemma sigmoid_prime_col:
  "wf_arr z \<Longrightarrow> ncols z = 1 \<Longrightarrow> sigmoid_prime z = colmap sigmoid_prime_real z"
proof -
  assume wf: "wf_arr z" and c: "ncols z = 1"
  have "sigmoid z = mk (nrows z) 1 (\<lambda>i j. sigmoid_real (ent z i 0))"
    using sigmoid_col[OF wf c] by (simp add: colmap_def)
  then show ?thesis
    by (simp add: sigmoid_prime_def amap_mk ew2_mk colmap_def sigmoid_prime_real_def)
qed

lemma np_dot_affine:
  assumes "ncols w = nrows a" "ncols a = 1"
  shows "np_dot w a = Inr (mk (nrows w) 1 (\<lambda>i j. \<Sum>k<ncols w. ent w i k * ent a k 0))"
proof -
  have "mk (nrows w) 1 (\<lambda>i j. \<Sum>k<ncols w. ent w i k * ent a k j)
      = mk (nrows w) 1 (\<lambda>i j. \<Sum>k<ncols w. ent w i k * ent a k 0)"
    by (rule mk_cong) simp
  then show ?thesis using assms by (simp only: np_dot_ok)
qed

lemma np_add_affine:
  assumes "shape b = (nrows w, 1)"
  shows "np_binop (+) (mk (nrows w) 1 (\<lambda>i j. \<Sum>k<ncols w. ent w i k * ent a k 0)) b
           = Inr (spec_affine w a b)"
proof -
  let ?wa = "mk (nrows w) 1 (\<lambda>i j. \<Sum>k<ncols w. ent w i k * ent a k 0)"
  have "shape ?wa = shape b" using assms by simp
  then have "np_binop (+) ?wa b = Inr (mk (nrows ?wa) (ncols ?wa) (\<lambda>i j. ent ?wa i j + ent b i j))"
    by (rule np_binop_same_shape)
  moreover have "mk (nrows ?wa) (ncols ?wa) (\<lambda>i j. ent ?wa i j + ent b i j) = spec_affine w a b"
    unfolding spec_affine_def nrows_mk ncols_mk by (rule mk_cong) simp
  ultimately show ?thesis by (simp only:)
qed

lemma np_sub_col:
  assumes "shape a = (r, 1)" "shape y = (r, 1)"
  shows "np_binop (-) a y = Inr (vec_sub a y)"
proof -
  have "shape a = shape y" using assms by simp
  then have "np_binop (-) a y = Inr (mk (nrows a) (ncols a) (\<lambda>i j. ent a i j - ent y i j))"
    by (rule np_binop_same_shape)
  moreover have "mk (nrows a) (ncols a) (\<lambda>i j. ent a i j - ent y i j) = vec_sub a y"
    using assms(1) unfolding vec_sub_def shape_def by (auto intro!: mk_cong)
  ultimately show ?thesis by (simp only:)
qed

lemma np_mul_col:
  assumes "shape a = (r, 1)" "shape b = (r, 1)"
  shows "np_binop (*) a b = Inr (hadamard a b)"
proof -
  have "shape a = shape b" using assms by simp
  then have "np_binop (*) a b = Inr (mk (nrows a) (ncols a) (\<lambda>i j. ent a i j * ent b i j))"
    by (rule np_binop_same_shape)
  moreover have "mk (nrows a) (ncols a) (\<lambda>i j. ent a i j * ent b i j) = hadamard a b"
    using assms(1) unfolding hadamard_def shape_def by (auto intro!: mk_cong)
  ultimately show ?thesis by (simp only:)
qed

lemma np_dot_transpose_col:
  assumes "nrows w = nrows d" "ncols d = 1"
  shows "np_dot (transpose2 w) d = Inr (tmat_vec w d)"
proof -
  have "np_dot (transpose2 w) d
      = Inr (mk (ncols w) 1 (\<lambda>i j. \<Sum>k<nrows w. ent (transpose2 w) i k * ent d k j))"
    using assms by (simp add: np_dot_ok transpose2_def)
  moreover have "mk (ncols w) 1 (\<lambda>i j. \<Sum>k<nrows w. ent (transpose2 w) i k * ent d k j) = tmat_vec w d"
    unfolding tmat_vec_def by (rule mk_cong) (simp add: transpose2_def)
  ultimately show ?thesis by (simp only:)
qed

lemma np_dot_outer:
  assumes "ncols d = 1" "ncols a = 1"
  shows "np_dot d (transpose2 a) = Inr (outer d a)"
proof -
  have "np_dot d (transpose2 a)
      = Inr (mk (nrows d) (nrows a) (\<lambda>i j. \<Sum>k<1. ent d i k * ent (transpose2 a) k j))"
    using assms by (simp add: np_dot_ok transpose2_def)
  moreover have "mk (nrows d) (nrows a) (\<lambda>i j. \<Sum>k<1. ent d i k * ent (transpose2 a) k j) = outer d a"
    unfolding outer_def using assms(2) by (auto intro!: mk_cong simp: transpose2_def)
  ultimately show ?thesis by (simp only:)
qed

section \<open>The reference quantities by index\<close>

lemma length_ref_zs [simp]: "length (ref_zs bws a) = length bws"
  by (induction bws a rule: ref_zs.induct) simp_all

lemma length_ref_activations [simp]: "length (ref_activations bws a) = Suc (length bws)"
  by (simp add: ref_activations_def)

lemma ref_activations_0 [simp]: "ref_activations bws a ! 0 = a"
  by (simp add: ref_activations_def)

lemma ref_activations_Suc:
  "t < length bws \<Longrightarrow> ref_activations bws a ! Suc t = colmap sigmoid_real (ref_zs bws a ! t)"
  by (simp add: ref_activations_def)

lemma ref_activations_Cons:
  "ref_activations ((b, w) # bws) a ! Suc t
     = ref_activations bws (colmap sigmoid_real (spec_affine w a b)) ! t"
  by (cases t) (simp_all add: ref_activations_def)

lemma ref_zs_nth:
  "t < length bws \<Longrightarrow>
   ref_zs bws a ! t = spec_affine (snd (bws ! t)) (ref_activations bws a ! t) (fst (bws ! t))"
proof (induction bws a arbitrary: t rule: ref_zs.induct)
  case (1 a)
  then show ?case by simp
next
  case (2 b w bws a)
  show ?case
  proof (cases t)
    case 0
    then show ?thesis by simp
  next
    case (Suc t')
    with "2.prems" have "t' < length bws" by simp
    from "2.IH"[OF this] show ?thesis
      by (simp add: Suc ref_activations_Cons)
  qed
qed

lemma length_ref_deltas:
  "length ws = length zs \<Longrightarrow> length (ref_deltas ws zs y) = length zs"
  by (induction ws zs y rule: ref_deltas.induct) simp_all

lemma ref_deltas_last:
  "length ws = length zs \<Longrightarrow> zs \<noteq> [] \<Longrightarrow>
   ref_deltas ws zs y ! (length zs - 1)
     = hadamard (vec_sub (colmap sigmoid_real (last zs)) y) (colmap sigmoid_prime_real (last zs))"
proof (induction ws zs y rule: ref_deltas.induct)
  case (1 w z y)
  then show ?case by simp
next
  case (2 w w' ws z z' zs y)
  then show ?case by simp
qed simp_all

lemma ref_deltas_step:
  "length ws = length zs \<Longrightarrow> Suc t < length zs \<Longrightarrow>
   ref_deltas ws zs y ! t
     = hadamard (tmat_vec (ws ! Suc t) (ref_deltas ws zs y ! Suc t)) (colmap sigmoid_prime_real (zs ! t))"
proof (induction ws zs y arbitrary: t rule: ref_deltas.induct)
  case (1 w z y)
  then show ?case by simp
next
  case (2 w w' ws z z' zs y)
  have len: "length (ref_deltas (w' # ws) (z' # zs) y) = length (z' # zs)"
    using "2.prems"(1) by (intro length_ref_deltas) simp
  show ?case
  proof (cases t)
    case 0
    have "hd (ref_deltas (w' # ws) (z' # zs) y) = ref_deltas (w' # ws) (z' # zs) y ! 0"
      using len by (cases "ref_deltas (w' # ws) (z' # zs) y") simp_all
    then show ?thesis by (simp add: 0)
  next
    case (Suc t')
    with "2.prems" have "length (w' # ws) = length (z' # zs)" "Suc t' < length (z' # zs)" by simp_all
    from "2.IH"[OF this] show ?thesis by (simp add: Suc)
  qed
qed simp_all

section \<open>The feedforward pass on a stack\<close>

lemma forward_pass_stack:
  "chain_ok n bws \<Longrightarrow> (\<And>s. s \<in> set mb \<Longrightarrow> shape (F s) = (n, 1)) \<Longrightarrow>
   forward_pass bws (map F mb) acts zs
     = Inr (acts @ map (\<lambda>t. map (\<lambda>s. ref_activations bws (F s) ! Suc t) mb) [0..<length bws],
            zs @ map (\<lambda>t. map (\<lambda>s. ref_zs bws (F s) ! t) mb) [0..<length bws])"
proof (induction bws arbitrary: n F acts zs)
  case Nil
  then show ?case by simp
next
  case (Cons bw bws)
  obtain b w where bw: "bw = (b, w)" by (cases bw)
  from Cons.prems(1) have ok: "wf_arr w" "ncols w = n" "wf_arr b" "shape b = (nrows w, 1)"
    "chain_ok (nrows w) bws" by (simp_all add: bw)
  let ?Z = "\<lambda>s. spec_affine w (F s) b"
  let ?A = "\<lambda>s. colmap sigmoid_real (?Z s)"
  have sh: "\<And>s. s \<in> set mb \<Longrightarrow> nrows (F s) = n \<and> ncols (F s) = 1"
    using Cons.prems(2) by (simp add: shape_def)
  have 1: "np_matmul23 w (map F mb)
      = Inr (map (\<lambda>s. mk (nrows w) 1 (\<lambda>i j. \<Sum>k<ncols w. ent w i k * ent (F s) k 0)) mb)"
    by (rule np_matmul23_map) (simp add: np_dot_affine ok sh)
  have 2: "np_binop32 (+) (map (\<lambda>s. mk (nrows w) 1 (\<lambda>i j. \<Sum>k<ncols w. ent w i k * ent (F s) k 0)) mb) b
      = Inr (map ?Z mb)"
    by (rule np_binop32_map) (rule np_add_affine[OF ok(4)])
  have 3: "sigmoid3 (map ?Z mb) = map ?A mb"
    by (simp add: sigmoid3_def sigmoid_col spec_affine_def)
  have shA: "\<And>s. s \<in> set mb \<Longrightarrow> shape (?A s) = (nrows w, 1)"
    by (simp add: colmap_def spec_affine_def)
  have IH: "forward_pass bws (map ?A mb) (acts @ [map ?A mb]) (zs @ [map ?Z mb])
     = Inr ((acts @ [map ?A mb]) @ map (\<lambda>t. map (\<lambda>s. ref_activations bws (?A s) ! Suc t) mb) [0..<length bws],
            (zs @ [map ?Z mb]) @ map (\<lambda>t. map (\<lambda>s. ref_zs bws (?A s) ! t) mb) [0..<length bws])"
    by (rule Cons.IH[OF ok(5) shA])
  have up: "\<And>G :: nat \<Rightarrow> ndarray list. map G [0..<Suc (length bws)] = G 0 # map (\<lambda>t. G (Suc t)) [0..<length bws]"
    by (simp add: map_upt_Suc del: upt_Suc)
  have "forward_pass (bw # bws) (map F mb) acts zs
      = forward_pass bws (map ?A mb) (acts @ [map ?A mb]) (zs @ [map ?Z mb])"
    by (simp only: bw forward_pass.simps 1 2 3 bindE_simps)
  also note IH
  finally show ?case
    by (simp add: bw up ref_activations_Cons ref_activations_def del: upt_Suc)
qed

section \<open>Python indexing from the end\<close>

lemma py_index_neg:
  "0 < i \<Longrightarrow> i \<le> length xs \<Longrightarrow> m = - int i \<Longrightarrow> py_index xs m = Inr (length xs - i)"
  by (auto simp: py_index_def nat_diff_distrib')

lemma py_get_neg:
  "0 < i \<Longrightarrow> i \<le> length xs \<Longrightarrow> m = - int i \<Longrightarrow> py_get xs m = Inr (xs ! (length xs - i))"
  by (simp add: py_get_def py_index_neg)

lemma py_set_neg:
  "0 < i \<Longrightarrow> i \<le> length xs \<Longrightarrow> m = - int i \<Longrightarrow> py_set xs m v = Inr (xs[length xs - i := v])"
  by (simp add: py_set_def py_index_neg)

section \<open>Shapes of the quantities of one sample\<close>

lemma dims_colmap [simp]: "nrows (colmap f a) = nrows a" "ncols (colmap f a) = 1" "wf_arr (colmap f a)"
  by (simp_all add: colmap_def)

lemma dims_hadamard [simp]: "nrows (hadamard a b) = nrows a" "ncols (hadamard a b) = 1" "wf_arr (hadamard a b)"
  by (simp_all add: hadamard_def)

lemma dims_vec_sub [simp]: "nrows (vec_sub a b) = nrows a" "ncols (vec_sub a b) = 1" "wf_arr (vec_sub a b)"
  by (simp_all add: vec_sub_def)

lemma dims_spec_affine [simp]:
  "nrows (spec_affine w a b) = nrows w" "ncols (spec_affine w a b) = 1" "wf_arr (spec_affine w a b)"
  by (simp_all add: spec_affine_def)

lemma dims_tmat_vec [simp]: "nrows (tmat_vec w d) = ncols w" "ncols (tmat_vec w d) = 1" "wf_arr (tmat_vec w d)"
  by (simp_all add: tmat_vec_def)

lemma dims_outer [simp]: "nrows (outer d a) = nrows d" "ncols (outer d a) = nrows a" "wf_arr (outer d a)"
  by (simp_all add: outer_def)

lemma wf_net_nth:
  assumes "wf_net sizes nn" "length sizes = Suc k" "t < k"
  shows "zip (biases nn) (weights nn) ! t = (biases nn ! t, weights nn ! t)"
    and "nrows (weights nn ! t) = sizes ! Suc t" and "ncols (weights nn ! t) = sizes ! t"
    and "nrows (biases nn ! t) = sizes ! Suc t" and "ncols (biases nn ! t) = 1"
    and "wf_arr (weights nn ! t)" and "wf_arr (biases nn ! t)"
  using assms by (simp_all add: wf_net_def shape_def)

lemma wf_net_lengths:
  assumes "wf_net sizes nn" "length sizes = Suc k"
  shows "length (weights nn) = k" "length (biases nn) = k"
    "length (zip (biases nn) (weights nn)) = k"
    "num_layers nn = int (Suc k)"
  using assms by (simp_all add: wf_net_def)

lemma dims_ref_zs:
  assumes "wf_net sizes nn" "length sizes = Suc k" "t < k"
  shows "nrows (ref_zs (zip (biases nn) (weights nn)) x ! t) = sizes ! Suc t"
    and "ncols (ref_zs (zip (biases nn) (weights nn)) x ! t) = 1"
    and "wf_arr (ref_zs (zip (biases nn) (weights nn)) x ! t)"
proof -
  have t: "t < length (zip (biases nn) (weights nn))"
    using assms(3) unfolding wf_net_lengths(3)[OF assms(1,2)] .
  show "nrows (ref_zs (zip (biases nn) (weights nn)) x ! t) = sizes ! Suc t"
    unfolding ref_zs_nth[OF t] wf_net_nth(1)[OF assms] dims_spec_affine snd_conv
    by (rule wf_net_nth(2)[OF assms])
  show "ncols (ref_zs (zip (biases nn) (weights nn)) x ! t) = 1"
    unfolding ref_zs_nth[OF t] by (rule dims_spec_affine)
  show "wf_arr (ref_zs (zip (biases nn) (weights nn)) x ! t)"
    unfolding ref_zs_nth[OF t] by (rule dims_spec_affine)
qed

lemma dims_ref_activations:
  assumes "wf_net sizes nn" "length sizes = Suc k" "t \<le> k" "nrows x = hd sizes" "ncols x = 1"
  shows "nrows (ref_activations (zip (biases nn) (weights nn)) x ! t) = sizes ! t"
    and "ncols (ref_activations (zip (biases nn) (weights nn)) x ! t) = 1"
proof -
  have "nrows (ref_activations (zip (biases nn) (weights nn)) x ! t) = sizes ! t \<and>
        ncols (ref_activations (zip (biases nn) (weights nn)) x ! t) = 1"
  proof (cases t)
    case 0
    have "sizes \<noteq> []" using assms(2) by auto
    then have "hd sizes = sizes ! 0" by (rule hd_conv_nth)
    then show ?thesis unfolding 0 ref_activations_0 using assms(4,5) by simp
  next
    case (Suc t')
    then have t': "t' < k" using assms(3) by simp
    then have l: "t' < length (zip (biases nn) (weights nn))"
      unfolding wf_net_lengths(3)[OF assms(1,2)] .
    show ?thesis unfolding Suc ref_activations_Suc[OF l] dims_colmap
      using dims_ref_zs(1)[OF assms(1,2) t'] by simp
  qed
  then show "nrows (ref_activations (zip (biases nn) (weights nn)) x ! t) = sizes ! t"
    and "ncols (ref_activations (zip (biases nn) (weights nn)) x ! t) = 1" by simp_all
qed

lemma delta_last:
  assumes "wf_net sizes nn" "length sizes = Suc (Suc k)"
  shows "fst (ref_backprop nn x y) ! k
    = hadamard (vec_sub (ref_activations (zip (biases nn) (weights nn)) x ! Suc k) y)
        (colmap sigmoid_prime_real (ref_zs (zip (biases nn) (weights nn)) x ! k))"
proof -
  let ?bws = "zip (biases nn) (weights nn)"
  let ?zs = "ref_zs ?bws x"
  have lz: "length ?zs = Suc k" unfolding length_ref_zs by (rule wf_net_lengths(3)[OF assms])
  have lw: "length (weights nn) = length ?zs" unfolding lz by (rule wf_net_lengths(1)[OF assms])
  have ne: "?zs \<noteq> []"
  proof
    assume "?zs = []"
    then have "length ?zs = 0" by (simp only: list.size)
    with lz show False by linarith
  qed
  have "last ?zs = ?zs ! (length ?zs - 1)" using ne by (rule last_conv_nth)
  then have l: "last ?zs = ?zs ! k" unfolding lz by simp
  have "k < length ?bws" unfolding wf_net_lengths(3)[OF assms] by simp
  then have a: "ref_activations ?bws x ! Suc k = colmap sigmoid_real (?zs ! k)"
    by (rule ref_activations_Suc)
  have "fst (ref_backprop nn x y) ! k = ref_deltas (weights nn) ?zs y ! (length ?zs - 1)"
    unfolding lz by (simp add: ref_backprop_def Let_def)
  also have "\<dots> = hadamard (vec_sub (colmap sigmoid_real (last ?zs)) y) (colmap sigmoid_prime_real (last ?zs))"
    by (rule ref_deltas_last[OF lw ne])
  finally show ?thesis unfolding l a .
qed

lemma delta_step:
  assumes "wf_net sizes nn" "length sizes = Suc k" "Suc t < k"
  shows "fst (ref_backprop nn x y) ! t
    = hadamard (tmat_vec (weights nn ! Suc t) (fst (ref_backprop nn x y) ! Suc t))
        (colmap sigmoid_prime_real (ref_zs (zip (biases nn) (weights nn)) x ! t))"
proof -
  let ?zs = "ref_zs (zip (biases nn) (weights nn)) x"
  have lz: "length ?zs = k" unfolding length_ref_zs by (rule wf_net_lengths(3)[OF assms(1,2)])
  have lw: "length (weights nn) = length ?zs" unfolding lz by (rule wf_net_lengths(1)[OF assms(1,2)])
  have t: "Suc t < length ?zs" unfolding lz by (rule assms(3))
  have f: "fst (ref_backprop nn x y) = ref_deltas (weights nn) ?zs y"
    by (simp add: ref_backprop_def Let_def)
  show ?thesis unfolding f by (rule ref_deltas_step[OF lw t])
qed

lemma dims_delta:
  assumes "wf_net sizes nn" "length sizes = Suc k" "t < k" "nrows x = hd sizes" "ncols x = 1"
  shows "nrows (fst (ref_backprop nn x y) ! t) = sizes ! Suc t"
    and "ncols (fst (ref_backprop nn x y) ! t) = 1"
    and "wf_arr (fst (ref_backprop nn x y) ! t)"
proof -
  have "nrows (fst (ref_backprop nn x y) ! t) = sizes ! Suc t \<and>
        ncols (fst (ref_backprop nn x y) ! t) = 1 \<and> wf_arr (fst (ref_backprop nn x y) ! t)"
  proof (cases "Suc t < k")
    case True
    show ?thesis unfolding delta_step[OF assms(1,2) True] dims_hadamard dims_tmat_vec
      using wf_net_nth(3)[OF assms(1,2) True] by simp
  next
    case False
    then have k: "k = Suc t" using assms(3) by linarith
    have l: "length sizes = Suc (Suc t)" using assms(2) k by simp
    have "Suc t \<le> k" using k by simp
    from dims_ref_activations(1)[OF assms(1,2) this assms(4,5)]
    show ?thesis unfolding delta_last[OF assms(1) l] dims_hadamard dims_vec_sub by simp
  qed
  then show "nrows (fst (ref_backprop nn x y) ! t) = sizes ! Suc t"
    and "ncols (fst (ref_backprop nn x y) ! t) = 1"
    and "wf_arr (fst (ref_backprop nn x y) ! t)" by simp_all
qed

lemma grad_w_sample:
  assumes "wf_net sizes nn" "length sizes = Suc k" "t < k"
  shows "snd (ref_backprop nn x y) ! t
    = outer (fst (ref_backprop nn x y) ! t) (ref_activations (zip (biases nn) (weights nn)) x ! t)"
proof -
  let ?bws = "zip (biases nn) (weights nn)"
  let ?zs = "ref_zs ?bws x"
  have lz: "length ?zs = k" unfolding length_ref_zs by (rule wf_net_lengths(3)[OF assms(1,2)])
  have lw: "length (weights nn) = length ?zs" unfolding lz by (rule wf_net_lengths(1)[OF assms(1,2)])
  have ld: "length (ref_deltas (weights nn) ?zs y) = k"
    using length_ref_deltas[OF lw] lz by simp
  have la: "length (ref_activations ?bws x) = Suc k"
    unfolding length_ref_activations wf_net_lengths(3)[OF assms(1,2)] by simp
  have "t < length (zip (ref_deltas (weights nn) ?zs y) (ref_activations ?bws x))"
    using ld la assms(3) by simp
  then show ?thesis
    unfolding ref_backprop_def Let_def snd_conv fst_conv by (simp only: nth_map nth_zip ld la assms(3) split_conv) 
      (use ld la assms(3) in simp)
qed

section \<open>The quantities of a mini-batch\<close>

lemma dims_col [simp]: "nrows (col v) = length v" "ncols (col v) = 1" "wf_arr (col v)"
  by (simp_all add: col_def nrows_def wf_arr_def list_all_iff)

lemma backprop_ok_sample:
  assumes "backprop_ok sizes nn mb" "s \<in> set mb"
  shows "nrows (col (fst s)) = hd sizes" "ncols (col (fst s)) = 1"
    "nrows (col (snd s)) = last sizes" "ncols (col (snd s)) = 1"
  using assms by (auto simp: backprop_ok_def wf_batch_def list_all_iff)

lemma backprop_ok_length:
  assumes "backprop_ok sizes nn mb"
  shows "\<exists>k. length sizes = Suc (Suc k)"
proof -
  from assms have ne: "sizes \<noteq> []" and d: "hd sizes \<noteq> last sizes"
    by (simp_all add: backprop_ok_def wf_net_def)
  then obtain a rest where s: "sizes = a # rest" by (cases sizes) auto
  with d have "rest \<noteq> []" by auto
  then obtain b rest' where "rest = b # rest'" by (cases rest) auto
  with s show ?thesis by simp
qed

lemma batch_act_alt:
  "batch_act nn mb t
     = map (\<lambda>s. ref_activations (zip (biases nn) (weights nn)) (col (fst s)) ! t) mb"
  by (simp add: batch_act_def split_def)

lemma batch_z_alt:
  "batch_z nn mb t = map (\<lambda>s. ref_zs (zip (biases nn) (weights nn)) (col (fst s)) ! t) mb"
  by (simp add: batch_z_def split_def)

lemma batch_delta_alt:
  "batch_delta nn mb t = map (\<lambda>s. fst (ref_backprop nn (col (fst s)) (col (snd s))) ! t) mb"
  by (simp add: batch_delta_def split_def)

lemma grad_w_alt:
  "grad_w nn mb t = sum_axis0 (map (\<lambda>s. snd (ref_backprop nn (col (fst s)) (col (snd s))) ! t) mb)"
  by (simp add: grad_w_def split_def)

lemma unpack_batch_ok:
  assumes "backprop_ok sizes nn mb"
  shows "unpack_batch mb = Inr (map (\<lambda>s. col (fst s)) mb, map (\<lambda>s. col (snd s)) mb)"
proof -
  from assms obtain s rest where mb: "mb = s # rest" by (cases mb) (auto simp: backprop_ok_def)
  obtain x0 y0 where s: "s = (x0, y0)" by (cases s)
  have "s \<in> set mb" by (simp add: mb)
  from backprop_ok_sample[OF assms this] have "length x0 = hd sizes" "length y0 = last sizes"
    by (simp_all add: s)
  moreover have "hd sizes \<noteq> last sizes" using assms by (simp add: backprop_ok_def)
  ultimately have "length y0 \<noteq> length x0" by simp
  then show ?thesis by (simp add: unpack_batch_def mb s split_def)
qed

lemma np_stack_inputs:
  assumes "backprop_ok sizes nn mb"
  shows "np_stack (map (\<lambda>s. col (fst s)) mb) = Inr (map (\<lambda>s. col (fst s)) mb)"
    and "np_stack (map (\<lambda>s. col (snd s)) mb) = Inr (map (\<lambda>s. col (snd s)) mb)"
proof -
  from assms obtain s rest where mb: "mb = s # rest" by (cases mb) (auto simp: backprop_ok_def)
  have "\<And>s'. s' \<in> set mb \<Longrightarrow> shape (col (fst s')) = (hd sizes, 1) \<and> shape (col (snd s')) = (last sizes, 1)"
    using backprop_ok_sample[OF assms] by (simp add: shape_def)
  then show "np_stack (map (\<lambda>s. col (fst s)) mb) = Inr (map (\<lambda>s. col (fst s)) mb)"
    and "np_stack (map (\<lambda>s. col (snd s)) mb) = Inr (map (\<lambda>s. col (snd s)) mb)"
    by (simp_all add: np_stack_def mb list_all_iff)
qed

lemma forward_pass_ok:
  assumes "backprop_ok sizes nn mb" "length sizes = Suc k"
  shows "forward_pass (zip (biases nn) (weights nn)) (map (\<lambda>s. col (fst s)) mb)
           [map (\<lambda>s. col (fst s)) mb] []
         = Inr (map (batch_act nn mb) [0..<Suc k], map (batch_z nn mb) [0..<k])"
proof -
  let ?bws = "zip (biases nn) (weights nn)"
  have wf: "wf_net sizes nn" using assms(1) by (simp add: backprop_ok_def)
  have c: "chain_ok (hd sizes) ?bws" using wf by (rule wf_net_chain)
  have sh: "\<And>s. s \<in> set mb \<Longrightarrow> shape (col (fst s)) = (hd sizes, 1)"
    using backprop_ok_sample[OF assms(1)] by (simp add: shape_def)
  have l: "length ?bws = k" by (rule wf_net_lengths(3)[OF wf assms(2)])
  have 0: "batch_act nn mb 0 = map (\<lambda>s. col (fst s)) mb"
    by (simp add: batch_act_alt)
  have "map (batch_act nn mb) [0..<Suc k]
      = batch_act nn mb 0 # map (\<lambda>t. batch_act nn mb (Suc t)) [0..<k]"
    by (simp add: map_upt_Suc del: upt_Suc)
  then have a: "map (batch_act nn mb) [0..<Suc k]
      = [map (\<lambda>s. col (fst s)) mb] @ map (\<lambda>t. map (\<lambda>s. ref_activations ?bws (col (fst s)) ! Suc t) mb) [0..<k]"
    by (simp add: 0 batch_act_alt del: upt_Suc)
  have z: "map (batch_z nn mb) [0..<k]
      = [] @ map (\<lambda>t. map (\<lambda>s. ref_zs ?bws (col (fst s)) ! t) mb) [0..<k]"
    by (simp add: batch_z_alt)
  show ?thesis unfolding a z
    using forward_pass_stack[OF c sh, of mb "\<lambda>s. s" "[map (\<lambda>s. col (fst s)) mb]" "[]"]
    unfolding l by simp
qed

lemma output_delta_ok:
  assumes "backprop_ok sizes nn mb" "length sizes = Suc (Suc k)"
  shows "cost_derivative (batch_act nn mb (Suc k)) (map (\<lambda>s. col (snd s)) mb)
           = Inr (map (\<lambda>s. vec_sub (ref_activations (zip (biases nn) (weights nn)) (col (fst s)) ! Suc k)
                              (col (snd s))) mb)"
    and "np_binop33 (*)
           (map (\<lambda>s. vec_sub (ref_activations (zip (biases nn) (weights nn)) (col (fst s)) ! Suc k)
                              (col (snd s))) mb)
           (sigmoid_prime3 (batch_z nn mb k))
         = Inr (batch_delta nn mb k)"
proof -
  let ?bws = "zip (biases nn) (weights nn)"
  have wf: "wf_net sizes nn" using assms(1) by (simp add: backprop_ok_def)
  have last: "last sizes = sizes ! Suc k"
    using assms(2) by (metis diff_Suc_1 last_conv_nth length_0_conv nat.distinct(1))
  show "cost_derivative (batch_act nn mb (Suc k)) (map (\<lambda>s. col (snd s)) mb)
           = Inr (map (\<lambda>s. vec_sub (ref_activations ?bws (col (fst s)) ! Suc k) (col (snd s))) mb)"
    unfolding cost_derivative_def batch_act_alt
  proof (rule np_binop33_map)
    fix s assume s: "s \<in> set mb"
    note d = backprop_ok_sample[OF assms(1) s]
    have "shape (ref_activations ?bws (col (fst s)) ! Suc k) = (sizes ! Suc k, 1)"
      using dims_ref_activations[OF wf assms(2) le_refl d(1,2)] by (simp add: shape_def)
    moreover have "shape (col (snd s)) = (sizes ! Suc k, 1)"
      using d(3,4) last by (simp add: shape_def)
    ultimately show "np_binop (-) (ref_activations ?bws (col (fst s)) ! Suc k) (col (snd s))
        = Inr (vec_sub (ref_activations ?bws (col (fst s)) ! Suc k) (col (snd s)))"
      by (rule np_sub_col)
  qed
  have sp: "sigmoid_prime3 (batch_z nn mb k)
      = map (\<lambda>s. colmap sigmoid_prime_real (ref_zs ?bws (col (fst s)) ! k)) mb"
    unfolding sigmoid_prime3_def batch_z_alt map_map comp_def
    by (rule map_cong[OF refl]) (rule sigmoid_prime_col[OF dims_ref_zs(3)[OF wf assms(2)] dims_ref_zs(2)[OF wf assms(2)]], simp_all)
  show "np_binop33 (*)
           (map (\<lambda>s. vec_sub (ref_activations ?bws (col (fst s)) ! Suc k) (col (snd s))) mb)
           (sigmoid_prime3 (batch_z nn mb k))
         = Inr (batch_delta nn mb k)"
    unfolding sp batch_delta_alt
  proof (rule np_binop33_map)
    fix s assume s: "s \<in> set mb"
    note d = backprop_ok_sample[OF assms(1) s]
    let ?a = "vec_sub (ref_activations ?bws (col (fst s)) ! Suc k) (col (snd s))"
    let ?b = "colmap sigmoid_prime_real (ref_zs ?bws (col (fst s)) ! k)"
    have "shape ?a = (sizes ! Suc k, 1)"
      using dims_ref_activations[OF wf assms(2) le_refl d(1,2)] by (simp add: shape_def)
    moreover have "shape ?b = (sizes ! Suc k, 1)"
      using dims_ref_zs(1)[OF wf assms(2), of k] by (simp add: shape_def)
    ultimately have "np_binop (*) ?a ?b = Inr (hadamard ?a ?b)" by (rule np_mul_col)
    then show "np_binop (*) ?a ?b = Inr (fst (ref_backprop nn (col (fst s)) (col (snd s))) ! k)"
      unfolding delta_last[OF wf assms(2)] .
  qed
qed

lemma step_delta_ok:
  assumes "backprop_ok sizes nn mb" "length sizes = Suc k" "Suc t < k"
  shows "np_matmul23 (transpose2 (weights nn ! Suc t)) (batch_delta nn mb (Suc t))
           = Inr (map (\<lambda>s. tmat_vec (weights nn ! Suc t)
                              (fst (ref_backprop nn (col (fst s)) (col (snd s))) ! Suc t)) mb)"
    and "np_binop33 (*)
           (map (\<lambda>s. tmat_vec (weights nn ! Suc t)
                              (fst (ref_backprop nn (col (fst s)) (col (snd s))) ! Suc t)) mb)
           (sigmoid_prime3 (batch_z nn mb t))
         = Inr (batch_delta nn mb t)"
proof -
  let ?bws = "zip (biases nn) (weights nn)"
  have wf: "wf_net sizes nn" using assms(1) by (simp add: backprop_ok_def)
  have t: "t < k" using assms(3) by simp
  show "np_matmul23 (transpose2 (weights nn ! Suc t)) (batch_delta nn mb (Suc t))
           = Inr (map (\<lambda>s. tmat_vec (weights nn ! Suc t)
                              (fst (ref_backprop nn (col (fst s)) (col (snd s))) ! Suc t)) mb)"
    unfolding batch_delta_alt
  proof (rule np_matmul23_map)
    fix s assume s: "s \<in> set mb"
    note d = backprop_ok_sample[OF assms(1) s]
    let ?d = "fst (ref_backprop nn (col (fst s)) (col (snd s))) ! Suc t"
    have "nrows (weights nn ! Suc t) = nrows ?d"
      using wf_net_nth(2)[OF wf assms(2,3)] dims_delta(1)[OF wf assms(2,3) d(1,2)] by simp
    moreover have "ncols ?d = 1" by (rule dims_delta(2)[OF wf assms(2,3) d(1,2)])
    ultimately show "np_dot (transpose2 (weights nn ! Suc t)) ?d = Inr (tmat_vec (weights nn ! Suc t) ?d)"
      by (rule np_dot_transpose_col)
  qed
  have sp: "sigmoid_prime3 (batch_z nn mb t)
      = map (\<lambda>s. colmap sigmoid_prime_real (ref_zs ?bws (col (fst s)) ! t)) mb"
    unfolding sigmoid_prime3_def batch_z_alt map_map comp_def
    by (rule map_cong[OF refl])
       (rule sigmoid_prime_col[OF dims_ref_zs(3)[OF wf assms(2) t] dims_ref_zs(2)[OF wf assms(2) t]])
  show "np_binop33 (*)
           (map (\<lambda>s. tmat_vec (weights nn ! Suc t)
                              (fst (ref_backprop nn (col (fst s)) (col (snd s))) ! Suc t)) mb)
           (sigmoid_prime3 (batch_z nn mb t))
         = Inr (batch_delta nn mb t)"
    unfolding sp batch_delta_alt
  proof (rule np_binop33_map)
    fix s assume s: "s \<in> set mb"
    let ?a = "tmat_vec (weights nn ! Suc t) (fst (ref_backprop nn (col (fst s)) (col (snd s))) ! Suc t)"
    let ?b = "colmap sigmoid_prime_real (ref_zs ?bws (col (fst s)) ! t)"
    have "shape ?a = (sizes ! Suc t, 1)"
      using wf_net_nth(3)[OF wf assms(2,3)] by (simp add: shape_def)
    moreover have "shape ?b = (sizes ! Suc t, 1)"
      using dims_ref_zs(1)[OF wf assms(2) t] by (simp add: shape_def)
    ultimately have "np_binop (*) ?a ?b = Inr (hadamard ?a ?b)" by (rule np_mul_col)
    then show "np_binop (*) ?a ?b = Inr (fst (ref_backprop nn (col (fst s)) (col (snd s))) ! t)"
      unfolding delta_step[OF wf assms(2,3)] .
  qed
qed

lemma grad_w_ok:
  assumes "backprop_ok sizes nn mb" "length sizes = Suc k" "t < k"
  shows "bindE (np_matmul33 (batch_delta nn mb t) (transpose021 (batch_act nn mb t)))
           (\<lambda>da. f (sum_axis0 da)) = f (grad_w nn mb t)"
proof -
  let ?bws = "zip (biases nn) (weights nn)"
  have wf: "wf_net sizes nn" using assms(1) by (simp add: backprop_ok_def)
  have tk: "t \<le> k" using assms(3) by simp
  have "np_matmul33 (batch_delta nn mb t) (transpose021 (batch_act nn mb t))
      = Inr (map (\<lambda>s. snd (ref_backprop nn (col (fst s)) (col (snd s))) ! t) mb)"
    unfolding batch_delta_alt batch_act_alt transpose021_def map_map comp_def
  proof (rule np_matmul33_map)
    fix s assume s: "s \<in> set mb"
    note d = backprop_ok_sample[OF assms(1) s]
    show "np_dot (fst (ref_backprop nn (col (fst s)) (col (snd s))) ! t)
            (transpose2 (ref_activations ?bws (col (fst s)) ! t))
          = Inr (snd (ref_backprop nn (col (fst s)) (col (snd s))) ! t)"
      unfolding grad_w_sample[OF wf assms(2,3)]
      by (rule np_dot_outer[OF dims_delta(2)[OF wf assms(2,3) d(1,2)]
            dims_ref_activations(2)[OF wf assms(2) tk d(1,2)]])
  qed
  then show ?thesis by (simp add: grad_w_alt)
qed

lemma shape_grad_b:
  assumes "backprop_ok sizes nn mb" "length sizes = Suc k" "t < k"
  shows "shape (grad_b nn mb t) = shape (biases nn ! t)" and "wf_arr (grad_b nn mb t)"
proof -
  have wf: "wf_net sizes nn" and ne: "mb \<noteq> []" using assms(1) by (simp_all add: backprop_ok_def)
  then have hd: "hd mb \<in> set mb" by simp
  note d = backprop_ok_sample[OF assms(1) hd]
  have "shape (fst (ref_backprop nn (col (fst (hd mb))) (col (snd (hd mb)))) ! t) = (sizes ! Suc t, 1)"
    using dims_delta(1,2)[OF wf assms(2,3) d(1,2)] by (simp add: shape_def)
  from sum_axis0_map[OF ne, of "\<lambda>s. fst (ref_backprop nn (col (fst s)) (col (snd s))) ! t", OF this]
  have g: "grad_b nn mb t = mk (sizes ! Suc t) 1
      (\<lambda>i j. \<Sum>s\<leftarrow>mb. ent (fst (ref_backprop nn (col (fst s)) (col (snd s))) ! t) i j)"
    by (simp add: grad_b_def batch_delta_alt)
  show "shape (grad_b nn mb t) = shape (biases nn ! t)"
    unfolding g using wf_net_nth(4,5)[OF wf assms(2,3)] by (simp add: shape_def)
  show "wf_arr (grad_b nn mb t)" unfolding g by simp
qed

lemma shape_grad_w:
  assumes "backprop_ok sizes nn mb" "length sizes = Suc k" "t < k"
  shows "shape (grad_w nn mb t) = shape (weights nn ! t)" and "wf_arr (grad_w nn mb t)"
proof -
  have wf: "wf_net sizes nn" and ne: "mb \<noteq> []" using assms(1) by (simp_all add: backprop_ok_def)
  then have hd: "hd mb \<in> set mb" by simp
  note d = backprop_ok_sample[OF assms(1) hd]
  have tk: "t \<le> k" using assms(3) by simp
  have "shape (snd (ref_backprop nn (col (fst (hd mb))) (col (snd (hd mb)))) ! t) = (sizes ! Suc t, sizes ! t)"
    unfolding grad_w_sample[OF wf assms(2,3)]
    using dims_delta(1)[OF wf assms(2,3) d(1,2)] dims_ref_activations(1)[OF wf assms(2) tk d(1,2)]
    by (simp add: shape_def)
  from sum_axis0_map[OF ne, of "\<lambda>s. snd (ref_backprop nn (col (fst s)) (col (snd s))) ! t", OF this]
  have g: "grad_w nn mb t = mk (sizes ! Suc t) (sizes ! t)
      (\<lambda>i j. \<Sum>s\<leftarrow>mb. ent (snd (ref_backprop nn (col (fst s)) (col (snd s))) ! t) i j)"
    by (simp add: grad_w_alt)
  show "shape (grad_w nn mb t) = shape (weights nn ! t)"
    unfolding g using wf_net_nth(2,3)[OF wf assms(2,3)] by (simp add: shape_def)
  show "wf_arr (grad_w nn mb t)" unfolding g by simp
qed

section \<open>The backward loop\<close>

lemma foldE_append: "foldE f s (xs @ ys) = bindE (foldE f s xs) (\<lambda>s'. foldE f s' ys)"
  by (induction xs arbitrary: s) (simp_all add: bindE_def split: sum.splits)

lemma partial_b_nth:
  "i < length (biases nn) \<Longrightarrow>
   partial_b nn mb j ! i
     = (if length (biases nn) - j \<le> i then grad_b nn mb i else zeros_like (biases nn ! i))"
  by (simp add: partial_b_def del: upt_Suc)

lemma partial_w_nth:
  "i < length (weights nn) \<Longrightarrow>
   partial_w nn mb j ! i
     = (if length (weights nn) - j \<le> i then grad_w nn mb i else zeros_like (weights nn ! i))"
  by (simp add: partial_w_def del: upt_Suc)

lemma length_partial [simp]:
  "length (partial_b nn mb j) = length (biases nn)" "length (partial_w nn mb j) = length (weights nn)"
  by (simp_all add: partial_b_def partial_w_def)

lemma partial_b_update:
  assumes "length (biases nn) = Suc t + j"
  shows "(partial_b nn mb j)[t := grad_b nn mb t] = partial_b nn mb (Suc j)"
proof (rule nth_equalityI)
  show "length ((partial_b nn mb j)[t := grad_b nn mb t]) = length (partial_b nn mb (Suc j))"
    by simp
next
  fix i assume "i < length ((partial_b nn mb j)[t := grad_b nn mb t])"
  then have i: "i < length (biases nn)" by simp
  have t: "t < length (biases nn)" using assms by simp
  show "(partial_b nn mb j)[t := grad_b nn mb t] ! i = partial_b nn mb (Suc j) ! i"
  proof (cases "i = t")
    case True
    have "length (biases nn) - Suc j \<le> t" using assms by simp
    then show ?thesis unfolding True using t by (simp add: partial_b_nth)
  next
    case False
    have "(length (biases nn) - j \<le> i) = (length (biases nn) - Suc j \<le> i)"
      using False assms by auto
    then show ?thesis using False i by (simp add: partial_b_nth)
  qed
qed

lemma partial_w_update:
  assumes "length (weights nn) = Suc t + j"
  shows "(partial_w nn mb j)[t := grad_w nn mb t] = partial_w nn mb (Suc j)"
proof (rule nth_equalityI)
  show "length ((partial_w nn mb j)[t := grad_w nn mb t]) = length (partial_w nn mb (Suc j))"
    by simp
next
  fix i assume "i < length ((partial_w nn mb j)[t := grad_w nn mb t])"
  then have i: "i < length (weights nn)" by simp
  have t: "t < length (weights nn)" using assms by simp
  show "(partial_w nn mb j)[t := grad_w nn mb t] ! i = partial_w nn mb (Suc j) ! i"
  proof (cases "i = t")
    case True
    have "length (weights nn) - Suc j \<le> t" using assms by simp
    then show ?thesis unfolding True using t by (simp add: partial_w_nth)
  next
    case False
    have "(length (weights nn) - j \<le> i) = (length (weights nn) - Suc j \<le> i)"
      using False assms by auto
    then show ?thesis using False i by (simp add: partial_w_nth)
  qed
qed

lemma partial_b_0: "partial_b nn mb 0 = map zeros_like (biases nn)"
  by (auto simp: partial_b_def intro!: nth_equalityI)

lemma partial_w_0: "partial_w nn mb 0 = map zeros_like (weights nn)"
  by (auto simp: partial_w_def intro!: nth_equalityI)

lemma partial_b_full: "length (biases nn) \<le> j \<Longrightarrow> partial_b nn mb j = map (grad_b nn mb) [0..<length (biases nn)]"
  by (simp add: partial_b_def)

lemma partial_w_full: "length (weights nn) \<le> j \<Longrightarrow> partial_w nn mb j = map (grad_w nn mb) [0..<length (weights nn)]"
  by (simp add: partial_w_def)

lemma backward_step_ok:
  assumes ok: "backprop_ok sizes nn mb" and len: "length sizes = Suc k"
    and k: "k = Suc t + j" and j: "0 < j"
  shows "backward_step nn (map (batch_z nn mb) [0..<k]) (map (batch_act nn mb) [0..<Suc k])
           (batch_delta nn mb (Suc t), partial_b nn mb j, partial_w nn mb j) (int (Suc j))
         = Inr (batch_delta nn mb t, partial_b nn mb (Suc j), partial_w nn mb (Suc j))"
proof -
  let ?ZS = "map (batch_z nn mb) [0..<k]" and ?AS = "map (batch_act nn mb) [0..<Suc k]"
  have wf: "wf_net sizes nn" using ok by (simp add: backprop_ok_def)
  note lens = wf_net_lengths[OF wf len]
  have t: "t < k" "Suc t < k" using k j by simp_all
  have kt: "k - Suc j = t" "k - j = Suc t" "Suc k - Suc (Suc j) = t" using k by simp_all
  have 1: "py_get ?ZS (- int (Suc j)) = Inr (batch_z nn mb t)"
  proof -
    have "py_get ?ZS (- int (Suc j)) = Inr (?ZS ! (length ?ZS - Suc j))"
      by (rule py_get_neg) (use k in simp_all)
    then show ?thesis using kt t by simp
  qed
  have 2: "py_get (weights nn) (- int (Suc j) + 1) = Inr (weights nn ! Suc t)"
  proof -
    have "py_get (weights nn) (- int (Suc j) + 1) = Inr (weights nn ! (length (weights nn) - j))"
      by (rule py_get_neg) (use k j lens in simp_all)
    then show ?thesis using kt lens by simp
  qed
  note 3 = step_delta_ok[OF ok len t(2)]
  have 4: "py_set (partial_b nn mb j) (- int (Suc j)) (sum_axis0 (batch_delta nn mb t))
      = Inr (partial_b nn mb (Suc j))"
  proof -
    have "py_set (partial_b nn mb j) (- int (Suc j)) (grad_b nn mb t)
        = Inr ((partial_b nn mb j)[length (partial_b nn mb j) - Suc j := grad_b nn mb t])"
      by (rule py_set_neg) (use k lens in simp_all)
    moreover have "length (partial_b nn mb j) - Suc j = t" using kt lens by simp
    moreover have "length (biases nn) = Suc t + j" using k lens by simp
    ultimately have "py_set (partial_b nn mb j) (- int (Suc j)) (grad_b nn mb t)
        = Inr (partial_b nn mb (Suc j))" by (simp add: partial_b_update)
    then show ?thesis unfolding grad_b_def .
  qed
  have 5: "py_get ?AS (- int (Suc j) - 1) = Inr (batch_act nn mb t)"
  proof -
    have "py_get ?AS (- int (Suc j) - 1) = Inr (?AS ! (length ?AS - Suc (Suc j)))"
      by (rule py_get_neg) (use k in simp_all)
    moreover have "length ?AS - Suc (Suc j) = t" using kt by simp
    moreover have "?AS ! t = batch_act nn mb t" using t(1) by (simp del: upt_Suc)
    ultimately show ?thesis by simp
  qed
  note 6 = grad_w_ok[OF ok len t(1), of "\<lambda>v. bindE (py_set (partial_w nn mb j) (- int (Suc j)) v)
             (\<lambda>nabla_w'. Inr (batch_delta nn mb t, partial_b nn mb (Suc j), nabla_w'))"]
  have 7: "py_set (partial_w nn mb j) (- int (Suc j)) (grad_w nn mb t) = Inr (partial_w nn mb (Suc j))"
  proof -
    have "py_set (partial_w nn mb j) (- int (Suc j)) (grad_w nn mb t)
        = Inr ((partial_w nn mb j)[length (partial_w nn mb j) - Suc j := grad_w nn mb t])"
      by (rule py_set_neg) (use k lens in simp_all)
    moreover have "length (partial_w nn mb j) - Suc j = t" using kt lens by simp
    moreover have "length (weights nn) = Suc t + j" using k lens by simp
    ultimately show ?thesis by (simp add: partial_w_update)
  qed
  show ?thesis
    unfolding backward_step_def prod.case 1 bindE_simps 2 3 4 5 6 7 by (rule refl)
qed

lemma backward_loop_ok:
  assumes ok: "backprop_ok sizes nn mb" and len: "length sizes = Suc k"
  shows "Suc n \<le> k \<Longrightarrow>
    foldE (backward_step nn (map (batch_z nn mb) [0..<k]) (map (batch_act nn mb) [0..<Suc k]))
      (batch_delta nn mb (k - 1), partial_b nn mb 1, partial_w nn mb 1) [2..int (Suc n)]
    = Inr (batch_delta nn mb (k - Suc n), partial_b nn mb (Suc n), partial_w nn mb (Suc n))"
proof (induction n)
  case 0
  then show ?case by simp
next
  case (Suc n)
  have "[2..int (Suc (Suc n))] = [2..int (Suc (Suc n)) - 1] @ [int (Suc (Suc n))]"
    by (rule upto_rec2) simp
  then have u: "[2..int (Suc (Suc n))] = [2..int (Suc n)] @ [int (Suc (Suc n))]" by simp
  have IH: "foldE (backward_step nn (map (batch_z nn mb) [0..<k]) (map (batch_act nn mb) [0..<Suc k]))
      (batch_delta nn mb (k - 1), partial_b nn mb 1, partial_w nn mb 1) [2..int (Suc n)]
    = Inr (batch_delta nn mb (k - Suc n), partial_b nn mb (Suc n), partial_w nn mb (Suc n))"
    using Suc by simp
  have k: "k = Suc (k - Suc (Suc n)) + Suc n" using Suc.prems by simp
  have d: "k - Suc n = Suc (k - Suc (Suc n))" using Suc.prems by simp
  note step = backward_step_ok[OF ok len k, simplified d[symmetric]]
  show ?case unfolding u foldE_append IH bindE_simps foldE.simps d
    using backward_step_ok[OF ok len k] by simp
qed

section \<open>Batched backpropagation computes the batch-summed reference gradients\<close>

lemma batch_backprop_ok:
  assumes ok: "backprop_ok sizes nn mb"
  shows "batch_backprop nn mb = Inr (spec_batch_gradients nn mb)"
proof -
  from backprop_ok_length[OF ok] obtain k' where len: "length sizes = Suc (Suc k')" by blast
  let ?k = "Suc k'"
  let ?X = "map (\<lambda>s. col (fst s)) mb" and ?Y = "map (\<lambda>s. col (snd s)) mb"
  let ?ZS = "map (batch_z nn mb) [0..<?k]" and ?AS = "map (batch_act nn mb) [0..<Suc ?k]"
  have wf: "wf_net sizes nn" using ok by (simp add: backprop_ok_def)
  note lens = wf_net_lengths[OF wf len]
  have 1: "unpack_batch mb = Inr (?X, ?Y)" by (rule unpack_batch_ok[OF ok])
  note 2 = np_stack_inputs[OF ok]
  have 3: "forward_pass (zip (biases nn) (weights nn)) ?X [?X] [] = Inr (?AS, ?ZS)"
    by (rule forward_pass_ok[OF ok len])
  have 4: "py_get ?AS (- 1) = Inr (batch_act nn mb ?k)"
  proof -
    have "py_get ?AS (- 1) = Inr (?AS ! (length ?AS - 1))"
      by (rule py_get_neg) simp_all
    moreover have "?AS ! ?k = batch_act nn mb ?k" by (simp del: upt_Suc)
    ultimately show ?thesis by simp
  qed
  note 5 = output_delta_ok[OF ok len]
  have 6: "py_get ?ZS (- 1) = Inr (batch_z nn mb k')"
  proof -
    have "py_get ?ZS (- 1) = Inr (?ZS ! (length ?ZS - 1))"
      by (rule py_get_neg) simp_all
    moreover have "?ZS ! k' = batch_z nn mb k'" by (simp del: upt_Suc)
    ultimately show ?thesis by simp
  qed
  have 7: "py_set (map zeros_like (biases nn)) (- 1) (sum_axis0 (batch_delta nn mb k'))
      = Inr (partial_b nn mb 1)"
  proof -
    have "py_set (partial_b nn mb 0) (- 1) (grad_b nn mb k')
        = Inr ((partial_b nn mb 0)[length (partial_b nn mb 0) - 1 := grad_b nn mb k'])"
      by (rule py_set_neg) (use lens in simp_all)
    moreover have "length (partial_b nn mb 0) - 1 = k'" using lens by simp
    moreover have "length (biases nn) = Suc k' + 0" using lens by simp
    ultimately have "py_set (partial_b nn mb 0) (- 1) (grad_b nn mb k') = Inr (partial_b nn mb (Suc 0))"
      by (simp add: partial_b_update)
    then show ?thesis unfolding grad_b_def partial_b_0 by simp
  qed
  have 8: "py_get ?AS (- 2) = Inr (batch_act nn mb k')"
  proof -
    have "py_get ?AS (- 2) = Inr (?AS ! (length ?AS - 2))"
      by (rule py_get_neg) simp_all
    moreover have "?AS ! k' = batch_act nn mb k'" by (simp del: upt_Suc)
    ultimately show ?thesis by simp
  qed
  have k': "k' < ?k" by simp
  have 10: "py_set (map zeros_like (weights nn)) (- 1) (grad_w nn mb k') = Inr (partial_w nn mb 1)"
  proof -
    have "py_set (partial_w nn mb 0) (- 1) (grad_w nn mb k')
        = Inr ((partial_w nn mb 0)[length (partial_w nn mb 0) - 1 := grad_w nn mb k'])"
      by (rule py_set_neg) (use lens in simp_all)
    moreover have "length (partial_w nn mb 0) - 1 = k'" using lens by simp
    moreover have "length (weights nn) = Suc k' + 0" using lens by simp
    ultimately have "py_set (partial_w nn mb 0) (- 1) (grad_w nn mb k') = Inr (partial_w nn mb (Suc 0))"
      by (simp add: partial_w_update)
    then show ?thesis unfolding partial_w_0 by simp
  qed
  have nl: "[2..num_layers nn - 1] = [2..int (Suc k')]" using lens(4) by simp
  have 11: "foldE (backward_step nn ?ZS ?AS)
      (batch_delta nn mb k', partial_b nn mb 1, partial_w nn mb 1) [2..num_layers nn - 1]
    = Inr (batch_delta nn mb 0, partial_b nn mb ?k, partial_w nn mb ?k)"
    unfolding nl using backward_loop_ok[OF ok len, of k'] by simp
  have 12: "partial_b nn mb ?k = map (grad_b nn mb) [0..<length (biases nn)]"
    by (rule partial_b_full) (simp add: lens)
  have 13: "partial_w nn mb ?k = map (grad_w nn mb) [0..<length (weights nn)]"
    by (rule partial_w_full) (simp add: lens)
  note 9 = grad_w_ok[OF ok len k', of "\<lambda>v. bindE (py_set (map zeros_like (weights nn)) (- 1) v)
      (\<lambda>nabla_w1. bindE (foldE (backward_step nn ?ZS ?AS) (batch_delta nn mb k', partial_b nn mb 1, nabla_w1)
                  [2..num_layers nn - 1]) (\<lambda>(delta', nabla_b', nabla_w'). Inr (nabla_b', nabla_w')))"]
  show ?thesis
    unfolding batch_backprop_def Let_def 1 bindE_simps prod.case 2 3 4 5 6 7 8 9 10 11 12 13
      spec_batch_gradients_def
    by (rule refl)
qed

section \<open>The update rule\<close>

lemma zip_nth_upt:
  "length gs = length ps \<Longrightarrow> zip ps gs = map (\<lambda>t. (ps ! t, gs ! t)) [0..<length ps]"
  by (rule nth_equalityI) simp_all

lemma sgd_step_ok:
  assumes m: "0 < m" and len: "length gs = length ps"
    and sh: "\<And>t. t < length ps \<Longrightarrow> shape (gs ! t) = shape (ps ! t) \<and> wf_arr (gs ! t)"
  shows "sgd_step eta m ps gs
    = Inr (map (\<lambda>t. mk (nrows (ps ! t)) (ncols (ps ! t))
                      (\<lambda>i j. ent (ps ! t) i j - eta / real m * ent (gs ! t) i j)) [0..<length ps])"
  unfolding sgd_step_def zip_nth_upt[OF len]
proof (rule mapE_map)
  fix t assume "t \<in> set [0..<length ps]"
  then have t: "t < length ps" by simp
  let ?p = "ps ! t" and ?g = "gs ! t"
  let ?sg = "amap (\<lambda>v. eta / real m * v) ?g"
  from sh[OF t] have s: "nrows ?g = nrows ?p" "ncols ?g = ncols ?p" and wf: "wf_arr ?g"
    by (simp_all add: shape_def)
  have "shape ?p = shape ?sg" using s by (simp add: shape_def)
  then have "np_binop (-) ?p ?sg = Inr (mk (nrows ?p) (ncols ?p) (\<lambda>i j. ent ?p i j - ent ?sg i j))"
    by (rule np_binop_same_shape)
  moreover have "mk (nrows ?p) (ncols ?p) (\<lambda>i j. ent ?p i j - ent ?sg i j)
      = mk (nrows ?p) (ncols ?p) (\<lambda>i j. ent ?p i j - eta / real m * ent ?g i j)"
    by (rule mk_cong) (simp add: ent_amap s wf)
  ultimately have 2: "np_binop (-) ?p ?sg
      = Inr (mk (nrows ?p) (ncols ?p) (\<lambda>i j. ent ?p i j - eta / real m * ent ?g i j))"
    by (simp only:)
  have 1: "py_truediv eta m = Inr (eta / real m)" using m by (simp add: py_truediv_def)
  show "(case (?p, ?g) of (p, np) \<Rightarrow>
        bindE (py_truediv eta m) (\<lambda>c. np_binop (-) p (amap (\<lambda>v. c * v) np)))
      = Inr (mk (nrows ?p) (ncols ?p) (\<lambda>i j. ent ?p i j - eta / real m * ent ?g i j))"
    unfolding prod.case 1 bindE_simps 2 by (rule refl)
qed

lemma backprop_returns_ok:
  assumes "wf_net sizes nn" "wf_batch sizes mb" "batch_backprop nn mb = Inr r"
  shows "backprop_ok sizes nn mb"
proof -
  from assms(3) obtain u where u: "unpack_batch mb = Inr u"
    unfolding batch_backprop_def Let_def by (cases "unpack_batch mb") simp_all
  then obtain s rest where mb: "mb = s # rest" by (cases mb) (simp_all add: unpack_batch_def)
  obtain x0 y0 where s: "s = (x0, y0)" by (cases s)
  from u have n: "\<not> list_all (\<lambda>(x, y). length x = length x0 \<and> length y = length x0) mb"
    by (auto simp: unpack_batch_def mb s split: if_splits)
  have all: "\<forall>(x, y) \<in> set mb. length x = hd sizes \<and> length y = last sizes"
    using assms(2) by (simp add: wf_batch_def list_all_iff)
  have "hd sizes \<noteq> last sizes"
  proof
    assume e: "hd sizes = last sizes"
    have "length x0 = hd sizes" using all by (simp add: mb s)
    with all e have "list_all (\<lambda>(x, y). length x = length x0 \<and> length y = length x0) mb"
      by (auto simp: list_all_iff)
    with n show False by blast
  qed
  then show ?thesis using assms(1,2) by (simp add: backprop_ok_def mb)
qed

lemma backprop_square_fails:
  assumes "wf_batch sizes mb" "hd sizes = last sizes"
  shows "batch_backprop nn mb = Inl ValueError"
proof (cases mb)
  case Nil
  then show ?thesis by (simp add: batch_backprop_Nil)
next
  case (Cons s rest)
  obtain x0 y0 where s: "s = (x0, y0)" by (cases s)
  have all: "\<forall>(x, y) \<in> set mb. length x = hd sizes \<and> length y = last sizes"
    using assms(1) by (simp add: wf_batch_def list_all_iff)
  then have "length x0 = hd sizes" by (simp add: Cons s)
  with all assms(2) have "list_all (\<lambda>(x, y). length x = length x0 \<and> length y = length x0) mb"
    by (auto simp: list_all_iff)
  then have "unpack_batch mb = Inl ValueError"
    by (simp add: unpack_batch_def Cons s)
  then show ?thesis by (simp add: batch_backprop_def)
qed

lemma sgd_ok:
  assumes ok: "backprop_ok sizes nn mb" and len: "length sizes = Suc k"
  shows "batch_stochastic_gradient_descent nn mb eta
    = (None, nn\<lparr>weights := map (\<lambda>t. mk (nrows (weights nn ! t)) (ncols (weights nn ! t))
                    (\<lambda>i j. ent (weights nn ! t) i j - eta / real (length mb) * ent (grad_w nn mb t) i j)) [0..<k],
                 biases := map (\<lambda>t. mk (nrows (biases nn ! t)) (ncols (biases nn ! t))
                    (\<lambda>i j. ent (biases nn ! t) i j - eta / real (length mb) * ent (grad_b nn mb t) i j)) [0..<k]\<rparr>)"
proof -
  have wf: "wf_net sizes nn" and ne: "mb \<noteq> []" using ok by (simp_all add: backprop_ok_def)
  note lens = wf_net_lengths[OF wf len]
  have m: "0 < length mb" using ne by simp
  have bp: "batch_backprop nn mb = Inr (map (grad_b nn mb) [0..<k], map (grad_w nn mb) [0..<k])"
    using batch_backprop_ok[OF ok] by (simp add: spec_batch_gradients_def lens)
  have w: "sgd_step eta (length mb) (weights nn) (map (grad_w nn mb) [0..<k])
    = Inr (map (\<lambda>t. mk (nrows (weights nn ! t)) (ncols (weights nn ! t))
                    (\<lambda>i j. ent (weights nn ! t) i j - eta / real (length mb) * ent (map (grad_w nn mb) [0..<k] ! t) i j))
            [0..<length (weights nn)])"
    by (rule sgd_step_ok[OF m]) (simp_all add: lens shape_grad_w[OF ok len])
  have b: "sgd_step eta (length mb) (biases nn) (map (grad_b nn mb) [0..<k])
    = Inr (map (\<lambda>t. mk (nrows (biases nn ! t)) (ncols (biases nn ! t))
                    (\<lambda>i j. ent (biases nn ! t) i j - eta / real (length mb) * ent (map (grad_b nn mb) [0..<k] ! t) i j))
            [0..<length (biases nn)])"
    by (rule sgd_step_ok[OF m]) (simp_all add: lens shape_grad_b[OF ok len])
  have w': "map (\<lambda>t. mk (nrows (weights nn ! t)) (ncols (weights nn ! t))
                    (\<lambda>i j. ent (weights nn ! t) i j - eta / real (length mb) * ent (map (grad_w nn mb) [0..<k] ! t) i j))
            [0..<k]
     = map (\<lambda>t. mk (nrows (weights nn ! t)) (ncols (weights nn ! t))
                    (\<lambda>i j. ent (weights nn ! t) i j - eta / real (length mb) * ent (grad_w nn mb t) i j)) [0..<k]"
    by (rule map_cong[OF refl]) (simp del: upt_Suc)
  have b': "map (\<lambda>t. mk (nrows (biases nn ! t)) (ncols (biases nn ! t))
                    (\<lambda>i j. ent (biases nn ! t) i j - eta / real (length mb) * ent (map (grad_b nn mb) [0..<k] ! t) i j))
            [0..<k]
     = map (\<lambda>t. mk (nrows (biases nn ! t)) (ncols (biases nn ! t))
                    (\<lambda>i j. ent (biases nn ! t) i j - eta / real (length mb) * ent (grad_b nn mb t) i j)) [0..<k]"
    by (rule map_cong[OF refl]) (simp del: upt_Suc)
  show ?thesis
    unfolding batch_stochastic_gradient_descent_def bp sum.case prod.case
      w[unfolded lens w'] b[unfolded lens b']
    by (rule refl)
qed

lemma wf_net_Suc: "wf_net sizes nn \<Longrightarrow> \<exists>k. length sizes = Suc k"
  by (cases sizes) (simp_all add: wf_net_def)

lemma backprop_gradients:
  assumes "wf_net sizes nn" "wf_batch sizes mb" "batch_backprop nn mb = Inr (nabla_b, nabla_w)"
    and "length sizes = Suc k"
  shows "backprop_ok sizes nn mb"
    and "nabla_b = map (grad_b nn mb) [0..<k]" and "nabla_w = map (grad_w nn mb) [0..<k]"
proof -
  show ok: "backprop_ok sizes nn mb" by (rule backprop_returns_ok[OF assms(1-3)])
  note lens = wf_net_lengths[OF assms(1,4)]
  from batch_backprop_ok[OF ok] assms(3)
  have "(nabla_b, nabla_w) = (map (grad_b nn mb) [0..<k], map (grad_w nn mb) [0..<k])"
    by (simp add: spec_batch_gradients_def lens)
  then show "nabla_b = map (grad_b nn mb) [0..<k]" and "nabla_w = map (grad_w nn mb) [0..<k]"
    by simp_all
qed

text \<open>
  The update rule where \<open>batch_backprop\<close> returns. When it returns the gradients
  \<open>(nabla_b, nabla_w)\<close> for a mini-batch of \<open>B\<close> samples (which is then not empty), on a
  network consistent with the layer sizes, \<open>batch_stochastic_gradient_descent\<close> raises
  nothing and leaves a network with the same \<open>num_layers\<close>, whose every weight matrix is
  \<open>W - (eta/B) * nabla_W\<close> and whose every bias vector is \<open>b - (eta/B) * nabla_b\<close>, entry by
  entry, the gradients having the shapes of the parameters; they are the batch-summed
  gradients of the specification.
\<close>

theorem sgd_update_rule:
  assumes "wf_net sizes nn" and "wf_batch sizes mini_batch"
    and "batch_backprop nn mini_batch = Inr (nabla_b, nabla_w)"
  shows "\<exists>nn'. batch_stochastic_gradient_descent nn mini_batch eta = (None, nn') \<and>
     mini_batch \<noteq> [] \<and>
     (nabla_b, nabla_w) = spec_batch_gradients nn mini_batch \<and>
     num_layers nn' = num_layers nn \<and>
     length (weights nn') = length (weights nn) \<and> length nabla_w = length (weights nn) \<and>
     length (biases nn') = length (biases nn) \<and> length nabla_b = length (biases nn) \<and>
     (\<forall>t < length (weights nn).
        shape (weights nn' ! t) = shape (weights nn ! t) \<and>
        shape (nabla_w ! t) = shape (weights nn ! t) \<and>
        (\<forall>i < nrows (weights nn ! t). \<forall>j < ncols (weights nn ! t).
           ent (weights nn' ! t) i j
             = ent (weights nn ! t) i j - eta / real (length mini_batch) * ent (nabla_w ! t) i j)) \<and>
     (\<forall>t < length (biases nn).
        shape (biases nn' ! t) = shape (biases nn ! t) \<and>
        shape (nabla_b ! t) = shape (biases nn ! t) \<and>
        (\<forall>i < nrows (biases nn ! t). \<forall>j < ncols (biases nn ! t).
           ent (biases nn' ! t) i j
             = ent (biases nn ! t) i j - eta / real (length mini_batch) * ent (nabla_b ! t) i j))"
proof -
  from wf_net_Suc[OF assms(1)] obtain k where len: "length sizes = Suc k" by blast
  note g = backprop_gradients[OF assms len]
  note ok = g(1)
  note lens = wf_net_lengths[OF assms(1) len]
  let ?nn' = "nn\<lparr>weights := map (\<lambda>t. mk (nrows (weights nn ! t)) (ncols (weights nn ! t))
                    (\<lambda>i j. ent (weights nn ! t) i j - eta / real (length mini_batch) * ent (grad_w nn mini_batch t) i j)) [0..<k],
                 biases := map (\<lambda>t. mk (nrows (biases nn ! t)) (ncols (biases nn ! t))
                    (\<lambda>i j. ent (biases nn ! t) i j - eta / real (length mini_batch) * ent (grad_b nn mini_batch t) i j)) [0..<k]\<rparr>"
  have 1: "batch_stochastic_gradient_descent nn mini_batch eta = (None, ?nn')"
    by (rule sgd_ok[OF ok len])
  have 2: "mini_batch \<noteq> []" using ok by (simp add: backprop_ok_def)
  have 3: "(nabla_b, nabla_w) = spec_batch_gradients nn mini_batch"
    using batch_backprop_ok[OF ok] assms(3) by simp
  have w: "\<And>t. t < k \<Longrightarrow>
        shape (weights ?nn' ! t) = shape (weights nn ! t) \<and>
        shape (nabla_w ! t) = shape (weights nn ! t) \<and>
        (\<forall>i < nrows (weights nn ! t). \<forall>j < ncols (weights nn ! t).
           ent (weights ?nn' ! t) i j
             = ent (weights nn ! t) i j - eta / real (length mini_batch) * ent (nabla_w ! t) i j)"
    using shape_grad_w(1)[OF ok len] by (simp add: g(3) shape_def del: upt_Suc)
  have b: "\<And>t. t < k \<Longrightarrow>
        shape (biases ?nn' ! t) = shape (biases nn ! t) \<and>
        shape (nabla_b ! t) = shape (biases nn ! t) \<and>
        (\<forall>i < nrows (biases nn ! t). \<forall>j < ncols (biases nn ! t).
           ent (biases ?nn' ! t) i j
             = ent (biases nn ! t) i j - eta / real (length mini_batch) * ent (nabla_b ! t) i j)"
    using shape_grad_b(1)[OF ok len] by (simp add: g(2) shape_def del: upt_Suc)
  show ?thesis
  proof (intro exI[of _ ?nn'] conjI)
    show "batch_stochastic_gradient_descent nn mini_batch eta = (None, ?nn')" by (rule 1)
    show "mini_batch \<noteq> []" by (rule 2)
    show "(nabla_b, nabla_w) = spec_batch_gradients nn mini_batch" by (rule 3)
    show "num_layers ?nn' = num_layers nn" by simp
    show "length (weights ?nn') = length (weights nn)" by (simp add: lens)
    show "length nabla_w = length (weights nn)" by (simp add: g(3) lens)
    show "length (biases ?nn') = length (biases nn)" by (simp add: lens)
    show "length nabla_b = length (biases nn)" by (simp add: g(2) lens)
    show "\<forall>t < length (weights nn).
        shape (weights ?nn' ! t) = shape (weights nn ! t) \<and>
        shape (nabla_w ! t) = shape (weights nn ! t) \<and>
        (\<forall>i < nrows (weights nn ! t). \<forall>j < ncols (weights nn ! t).
           ent (weights ?nn' ! t) i j
             = ent (weights nn ! t) i j - eta / real (length mini_batch) * ent (nabla_w ! t) i j)"
      unfolding lens using w by blast
    show "\<forall>t < length (biases nn).
        shape (biases ?nn' ! t) = shape (biases nn ! t) \<and>
        shape (nabla_b ! t) = shape (biases nn ! t) \<and>
        (\<forall>i < nrows (biases nn ! t). \<forall>j < ncols (biases nn ! t).
           ent (biases ?nn' ! t) i j
             = ent (biases nn ! t) i j - eta / real (length mini_batch) * ent (nabla_b ! t) i j)"
      unfolding lens using b by blast
  qed
qed

lemmas eval_spec = spec_batch_gradients_def grad_b_def grad_w_def batch_delta_def ref_backprop_def
  Let_def col_def ref_activations_def spec_affine_def colmap_def hadamard_def vec_sub_def outer_def
  tmat_vec_def sigmoid_prime_real_def sigmoid_real_def mk_def ent_def nrows_def

lemma grads_net21: "spec_batch_gradients net21 [sample_a] = ([Arr 1 [[- 1 / 8]]], [Arr 2 [[- 1 / 8, 0]]])"
  by (simp add: eval_spec net21_def sample_a_def eval_nat_numeral)

lemmas eval_code = batch_backprop_def unpack_batch_def np_stack_def col_def shape_def nrows_def
  np_matmul23_def np_matmul33_def np_binop32_def np_binop33_def np_dot_def np_binop_def bdim_def
  bent_def ent_def mk_def sigmoid3_def sigmoid_prime3_def sigmoid_def sigmoid_prime_def amap_def
  ew2_def sigmoid_real_def cost_derivative_def py_get_def py_set_def py_index_def transpose021_def
  transpose2_def zeros_like_def Let_def

lemma code_net21: "batch_backprop net21 [sample_a] = Inr ([Arr 1 [[- 1 / 8]]], [Arr 2 [[- 1 / 8, 0]]])"
  by (simp add: eval_code net21_def sample_a_def eval_nat_numeral)

section \<open>Initialisation\<close>

lemma randn_list_shapes:
  "randn_list g ds = Inr (as, g') \<Longrightarrow>
   length as = length ds \<and>
   (\<forall>i < length ds. wf_arr (as ! i) \<and> shape (as ! i) = (nat (fst (ds ! i)), nat (snd (ds ! i))))"
proof (induction ds arbitrary: g as g')
  case Nil
  then show ?case by simp
next
  case (Cons d ds)
  obtain d0 d1 where d: "d = (d0, d1)" by (cases d)
  from Cons.prems obtain a g1 as' where
    a: "randn g d0 d1 = Inr (a, g1)" and r: "randn_list g1 ds = Inr (as', g')" and as: "as = a # as'"
    by (auto simp: d bindE_eq_Inr)
  from a have sa: "wf_arr a" "shape a = (nat d0, nat d1)"
    by (auto simp: randn_def split: if_splits)
  from Cons.IH[OF r] have IH: "length as' = length ds"
    "\<And>i. i < length ds \<Longrightarrow> wf_arr (as' ! i) \<and> shape (as' ! i) = (nat (fst (ds ! i)), nat (snd (ds ! i)))"
    by simp_all
  show ?case
  proof (intro conjI allI impI)
    show "length as = length (d # ds)" by (simp add: as IH(1))
  next
    fix i assume "i < length (d # ds)"
    then show "wf_arr (as ! i)" using sa IH(2) by (cases i) (simp_all add: as d)
  next
    fix i assume "i < length (d # ds)"
    then show "shape (as ! i) = (nat (fst ((d # ds) ! i)), nat (snd ((d # ds) ! i)))"
      using sa IH(2) by (cases i) (simp_all add: as d)
  qed
qed

lemma randn_list_total:
  "\<forall>(d0, d1) \<in> set ds. 0 \<le> d0 \<and> 0 \<le> d1 \<Longrightarrow> \<exists>as g'. randn_list g ds = Inr (as, g')"
proof (induction ds arbitrary: g)
  case Nil
  then show ?case by simp
next
  case (Cons d ds)
  obtain d0 d1 where d: "d = (d0, d1)" by (cases d)
  from Cons.prems have "0 \<le> d0" "0 \<le> d1" by (simp_all add: d)
  then obtain a g1 where a: "randn g d0 d1 = Inr (a, g1)" by (simp add: randn_def)
  from Cons.IH[of g1] Cons.prems obtain as g' where "randn_list g1 ds = Inr (as, g')" by auto
  with a show ?case by (simp add: d)
qed

lemma init_network_shapes:
  assumes "init_network g layers = Inr (nn, g')"
  shows "num_layers nn = int (length layers)"
    and "length (weights nn) = length layers - 1" and "length (biases nn) = length layers - 1"
    and "\<forall>i < length layers - 1.
           wf_arr (weights nn ! i) \<and> shape (weights nn ! i) = (nat (layers ! Suc i), nat (layers ! i)) \<and>
           wf_arr (biases nn ! i) \<and> shape (biases nn ! i) = (nat (layers ! Suc i), 1)"
proof -
  let ?bd = "map (\<lambda>y. (y, 1::int)) (tl layers)"
  let ?wd = "map (\<lambda>(x, y). (y, x)) (zip (butlast layers) (tl layers))"
  have "\<exists>bs g1. randn_list g ?bd = Inr (bs, g1)"
  proof (cases "randn_list g ?bd")
    case (Inl e)
    then have "init_network g layers = Inl e" unfolding init_network_def by (simp only: bindE_simps)
    with assms show ?thesis by simp
  next
    case (Inr p)
    then show ?thesis by (cases p) simp
  qed
  then obtain bs g1 where b: "randn_list g ?bd = Inr (bs, g1)" by blast
  have "\<exists>ws g2. randn_list g1 ?wd = Inr (ws, g2)"
  proof (cases "randn_list g1 ?wd")
    case (Inl e)
    then have "init_network g layers = Inl e"
      unfolding init_network_def b by (simp only: bindE_simps prod.case)
    with assms show ?thesis by simp
  next
    case (Inr p)
    then show ?thesis by (cases p) simp
  qed
  then obtain ws g2 where w0: "randn_list g1 ?wd = Inr (ws, g2)" by blast
  have e: "init_network g layers
      = Inr (\<lparr>num_layers = int (length layers), biases = bs, weights = ws\<rparr>, g2)"
    unfolding init_network_def b bindE_simps prod.case w0 by (rule refl)
  have "(Inr (nn, g') :: error + Network \<times> np_rng) = Inr (\<lparr>num_layers = int (length layers), biases = bs, weights = ws\<rparr>, g2)"
    by (rule trans[OF assms[symmetric] e])
  then have nn: "nn = \<lparr>num_layers = int (length layers), biases = bs, weights = ws\<rparr>"
    and g2: "g2 = g'" by (simp_all only: sum.inject prod.inject)
  have w: "randn_list g1 ?wd = Inr (ws, g')" using w0 unfolding g2 .
  note B = randn_list_shapes[OF b] and W = randn_list_shapes[OF w]
  note Bl = B[THEN conjunct1] and Wl = W[THEN conjunct1]
  note Bs = B[THEN conjunct2, rule_format] and Ws = W[THEN conjunct2, rule_format]
  show "num_layers nn = int (length layers)" by (simp add: nn)
  show "length (weights nn) = length layers - 1" using Wl by (simp add: nn)
  show "length (biases nn) = length layers - 1" using Bl by (simp add: nn)
  show "\<forall>i < length layers - 1.
           wf_arr (weights nn ! i) \<and> shape (weights nn ! i) = (nat (layers ! Suc i), nat (layers ! i)) \<and>
           wf_arr (biases nn ! i) \<and> shape (biases nn ! i) = (nat (layers ! Suc i), 1)"
  proof (intro allI impI)
    fix i assume i: "i < length layers - 1"
    then have ib: "i < length ?bd" and iw: "i < length ?wd" by simp_all
    have t: "tl layers ! i = layers ! Suc i" using i by (simp add: nth_tl)
    have bl: "butlast layers ! i = layers ! i" using i by (simp add: nth_butlast)
    have bd: "?bd ! i = (layers ! Suc i, 1)" using i t by simp
    have wd: "?wd ! i = (layers ! Suc i, layers ! i)" using i t bl by simp
    have Bi: "wf_arr (bs ! i)" "shape (bs ! i) = (nat (fst (?bd ! i)), nat (snd (?bd ! i)))"
      using Bs[OF ib] by simp_all
    have Wi: "wf_arr (ws ! i)" "shape (ws ! i) = (nat (fst (?wd ! i)), nat (snd (?wd ! i)))"
      using Ws[OF iw] by simp_all
    have "shape (bs ! i) = (nat (layers ! Suc i), 1)" unfolding Bi(2) bd by simp
    moreover have "shape (ws ! i) = (nat (layers ! Suc i), nat (layers ! i))" unfolding Wi(2) wd by simp
    ultimately show "wf_arr (weights nn ! i) \<and> shape (weights nn ! i) = (nat (layers ! Suc i), nat (layers ! i)) \<and>
           wf_arr (biases nn ! i) \<and> shape (biases nn ! i) = (nat (layers ! Suc i), 1)"
      using Bi(1) Wi(1) unfolding nn by simp
  qed
qed

lemma init_network_wf:
  assumes "init_network g layers = Inr (nn, g')" "layers \<noteq> []"
  shows "wf_net (map nat layers) nn"
proof -
  note s = init_network_shapes[OF assms(1)]
  have "\<forall>i < length (map nat layers) - 1.
        wf_arr (weights nn ! i) \<and> shape (weights nn ! i) = (map nat layers ! Suc i, map nat layers ! i) \<and>
        wf_arr (biases nn ! i) \<and> shape (biases nn ! i) = (map nat layers ! Suc i, 1)"
  proof (intro allI impI)
    fix i assume "i < length (map nat layers) - 1"
    then have i: "i < length layers - 1" by simp
    then have "map nat layers ! Suc i = nat (layers ! Suc i)" "map nat layers ! i = nat (layers ! i)"
      by simp_all
    with s(4) i show "wf_arr (weights nn ! i) \<and> shape (weights nn ! i) = (map nat layers ! Suc i, map nat layers ! i) \<and>
        wf_arr (biases nn ! i) \<and> shape (biases nn ! i) = (map nat layers ! Suc i, 1)"
      by simp
  qed
  moreover have "map nat layers \<noteq> []" using assms(2) by simp
  moreover have "num_layers nn = int (length (map nat layers))" using s(1) by simp
  moreover have "length (weights nn) = length (map nat layers) - 1" using s(2) by simp
  moreover have "length (biases nn) = length (map nat layers) - 1" using s(3) by simp
  ultimately show ?thesis unfolding wf_net_def by (intro conjI)
qed

lemma in_set_tl: "x \<in> set (tl xs) \<Longrightarrow> x \<in> set xs"
  by (cases xs) simp_all

lemma init_network_total:
  assumes "\<forall>s \<in> set layers. 0 \<le> s"
  shows "\<exists>nn g'. init_network g layers = Inr (nn, g')"
proof -
  have "\<forall>(d0, d1) \<in> set (map (\<lambda>y. (y, 1)) (tl layers)). (0::int) \<le> d0 \<and> (0::int) \<le> d1"
  proof (clarsimp)
    fix d0 assume "d0 \<in> set (tl layers)"
    then have "d0 \<in> set layers" by (rule in_set_tl)
    with assms show "0 \<le> d0" by blast
  qed
  from randn_list_total[OF this, of g] obtain bs g1 where
    b: "randn_list g (map (\<lambda>y. (y, 1)) (tl layers)) = Inr (bs, g1)" by blast
  have "\<forall>(d0, d1) \<in> set (map (\<lambda>(x, y). (y, x)) (zip (butlast layers) (tl layers))). 0 \<le> d0 \<and> 0 \<le> d1"
  proof (clarsimp)
    fix x y assume xy: "(x, y) \<in> set (zip (butlast layers) (tl layers))"
    then have "x \<in> set (butlast layers)" by (rule set_zip_leftD)
    then have x: "x \<in> set layers" by (rule in_set_butlastD)
    from xy have "y \<in> set (tl layers)" by (rule set_zip_rightD)
    then have y: "y \<in> set layers" by (rule in_set_tl)
    from x y assms show "0 \<le> y \<and> 0 \<le> x" by blast
  qed
  from randn_list_total[OF this, of g1] obtain ws g2 where
    w: "randn_list g1 (map (\<lambda>(x, y). (y, x)) (zip (butlast layers) (tl layers))) = Inr (ws, g2)" by blast
  show ?thesis unfolding init_network_def b bindE_simps prod.case w by blast
qed

section \<open>The update rule keeps the shapes\<close>

lemma sgd_preserves_wf:
  assumes "wf_net sizes nn" "wf_batch sizes mb"
  shows "wf_net sizes (snd (batch_stochastic_gradient_descent nn mb eta))"
proof (cases "batch_backprop nn mb")
  case (Inl e)
  then show ?thesis using assms(1) by (simp add: batch_stochastic_gradient_descent_def)
next
  case (Inr r)
  from wf_net_Suc[OF assms(1)] obtain k where len: "length sizes = Suc k" by blast
  have ok: "backprop_ok sizes nn mb" by (rule backprop_returns_ok[OF assms Inr])
  note lens = wf_net_lengths[OF assms(1) len]
  let ?ws = "map (\<lambda>t. mk (nrows (weights nn ! t)) (ncols (weights nn ! t))
                    (\<lambda>i j. ent (weights nn ! t) i j - eta / real (length mb) * ent (grad_w nn mb t) i j)) [0..<k]"
  let ?bs = "map (\<lambda>t. mk (nrows (biases nn ! t)) (ncols (biases nn ! t))
                    (\<lambda>i j. ent (biases nn ! t) i j - eta / real (length mb) * ent (grad_b nn mb t) i j)) [0..<k]"
  have e: "snd (batch_stochastic_gradient_descent nn mb eta) = nn\<lparr>weights := ?ws, biases := ?bs\<rparr>"
    unfolding sgd_ok[OF ok len] by simp
  have k: "length sizes - 1 = k" using len by simp
  have "\<forall>i < k.
        wf_arr (?ws ! i) \<and> shape (?ws ! i) = (sizes ! Suc i, sizes ! i) \<and>
        wf_arr (?bs ! i) \<and> shape (?bs ! i) = (sizes ! Suc i, 1)"
  proof (intro allI impI)
    fix i assume i: "i < k"
    have w: "?ws ! i = mk (nrows (weights nn ! i)) (ncols (weights nn ! i))
                    (\<lambda>ia j. ent (weights nn ! i) ia j - eta / real (length mb) * ent (grad_w nn mb i) ia j)"
      using i by (simp del: upt_Suc)
    have b: "?bs ! i = mk (nrows (biases nn ! i)) (ncols (biases nn ! i))
                    (\<lambda>ia j. ent (biases nn ! i) ia j - eta / real (length mb) * ent (grad_b nn mb i) ia j)"
      using i by (simp del: upt_Suc)
    show "wf_arr (?ws ! i) \<and> shape (?ws ! i) = (sizes ! Suc i, sizes ! i) \<and>
        wf_arr (?bs ! i) \<and> shape (?bs ! i) = (sizes ! Suc i, 1)"
      unfolding w b using wf_net_nth(2-5)[OF assms(1) len i] by simp
  qed
  moreover have "sizes \<noteq> []" using len by auto
  moreover have "num_layers (nn\<lparr>weights := ?ws, biases := ?bs\<rparr>) = int (length sizes)"
    using lens(4) len by simp
  moreover have "length ?ws = k" "length ?bs = k" by simp_all
  ultimately show ?thesis unfolding e wf_net_def k by simp
qed

lemma sgd_batches_wf:
  "wf_net sizes nn \<Longrightarrow> (\<And>mb. mb \<in> set mbs \<Longrightarrow> wf_batch sizes mb) \<Longrightarrow>
   wf_net sizes (snd (sgd_batches eta nn mbs))"
proof (induction mbs arbitrary: nn)
  case Nil
  then show ?case by simp
next
  case (Cons mb mbs)
  obtain r nn' where s: "batch_stochastic_gradient_descent nn mb eta = (r, nn')"
    by (cases "batch_stochastic_gradient_descent nn mb eta")
  have "wf_net sizes nn'"
    using sgd_preserves_wf[OF Cons.prems(1), of mb eta] Cons.prems(2) s by simp
  then show ?case using Cons.IH[of nn'] Cons.prems(2) s by (cases r) simp_all
qed

lemma set_py_slice: "set (py_slice xs lo hi) \<subseteq> set xs"
  unfolding py_slice_def Let_def by (meson set_drop_subset set_take_subset subset_trans)

lemma mini_batches_wf:
  assumes "mini_batches n td m = Inr mbs" "wf_batch sizes td" "mb \<in> set mbs"
  shows "wf_batch sizes mb"
proof -
  from assms(1,3) obtain lo hi where "mb = py_slice td lo hi"
    by (auto simp: mini_batches_def bindE_eq_Inr)
  then have "set mb \<subseteq> set td" using set_py_slice by simp
  then show ?thesis using assms(2) by (auto simp: wf_batch_def list_all_iff)
qed

lemma epoch_wf:
  assumes "wf_net sizes (net s)" "wf_batch sizes (data s)"
  shows "wf_net sizes (net (snd (epoch n m eta test s j))) \<and>
         wf_batch sizes (data (snd (epoch n m eta test s j)))"
proof -
  obtain td g where sh: "shuffle (rng s) (data s) = (td, g)" by (cases "shuffle (rng s) (data s)")
  have "mset td = mset (data s)" using shuffle_perm[of "rng s" "data s"] sh by simp
  then have "set td = set (data s)" by (rule mset_eq_setD)
  then have td: "wf_batch sizes td" using assms(2) by (simp add: wf_batch_def list_all_iff)
  have d: "data (snd (epoch n m eta test s j)) = td" using data_epoch[of n m eta test s j] sh by simp
  have "wf_net sizes (net (snd (epoch n m eta test s j)))"
  proof (cases "mini_batches n td m")
    case (Inl e)
    then show ?thesis using assms(1) by (simp add: epoch_def sh)
  next
    case (Inr mbs)
    obtain r nn' where sb: "sgd_batches eta (net s) mbs = (r, nn')"
      by (cases "sgd_batches eta (net s) mbs")
    have "wf_net sizes (snd (sgd_batches eta (net s) mbs))"
      by (rule sgd_batches_wf[OF assms(1)]) (rule mini_batches_wf[OF Inr td])
    then have "wf_net sizes nn'" by (simp add: sb)
    then show ?thesis
      by (cases r) (simp_all add: epoch_def sh Inr sb Let_def split: option.splits list.splits sum.splits)
  qed
  with d td show ?thesis by simp
qed

lemma epochs_loop_wf:
  "wf_net sizes (net s) \<Longrightarrow> wf_batch sizes (data s) \<Longrightarrow>
   wf_net sizes (net (snd (epochs_loop (epoch n m eta test) s js)))"
proof (induction js arbitrary: s)
  case Nil
  then show ?case by simp
next
  case (Cons j js)
  obtain r s' where e: "epoch n m eta test s j = (r, s')" by (cases "epoch n m eta test s j")
  from epoch_wf[OF Cons.prems, of n m eta test j] e
  have s': "wf_net sizes (net s')" "wf_batch sizes (data s')" by simp_all
  show ?case using Cons.IH[OF s'] s' e by (cases r) simp_all
qed

lemma learn_wf:
  "wf_net sizes nn \<Longrightarrow> wf_batch sizes td \<Longrightarrow>
   wf_net sizes (net (snd (learn nn td epochs m eta test g)))"
  unfolding learn_def Let_def by (rule epochs_loop_wf) simp_all

lemma backprop_shapes:
  assumes "wf_net sizes nn" "wf_batch sizes mb" "batch_backprop nn mb = Inr (nabla_b, nabla_w)"
  shows "list_all2 (\<lambda>g p. shape g = shape p) nabla_b (biases nn)"
    and "list_all2 (\<lambda>g p. shape g = shape p) nabla_w (weights nn)"
proof -
  from wf_net_Suc[OF assms(1)] obtain k where len: "length sizes = Suc k" by blast
  note g = backprop_gradients[OF assms len]
  note lens = wf_net_lengths[OF assms(1) len]
  show "list_all2 (\<lambda>g p. shape g = shape p) nabla_b (biases nn)"
    unfolding list_all2_conv_all_nth g(2)
    using shape_grad_b(1)[OF g(1) len] lens by (simp del: upt_Suc)
  show "list_all2 (\<lambda>g p. shape g = shape p) nabla_w (weights nn)"
    unfolding list_all2_conv_all_nth g(3)
    using shape_grad_w(1)[OF g(1) len] lens by (simp del: upt_Suc)
qed

text \<open>
  Claim C8. For layer sizes that are not negative, \<open>init_network\<close> returns a network
  with \<open>L - 1\<close> weight matrices and \<open>L - 1\<close> bias vectors, the \<open>i\<close>-th of shapes
  \<open>(sizes[i+1], sizes[i])\<close> and \<open>(sizes[i+1], 1)\<close> (and whenever it returns, the network
  has these counts and shapes). On a network with these counts and shapes and a
  mini-batch of samples of the right lengths, the gradients that \<open>batch_backprop\<close>
  returns have the shapes of the parameters, and the network that
  \<open>batch_stochastic_gradient_descent\<close> leaves, with or without an exception, has the
  same counts and shapes; so has the network that \<open>learn\<close> leaves.
\<close>

theorem shapes_invariant:
  "(2 \<le> length layers \<and> (\<forall>s \<in> set layers. 0 \<le> s) \<longrightarrow>
      (\<exists>nn g'. init_network g layers = Inr (nn, g'))) \<and>
   (init_network g layers = Inr (nn0, g0) \<longrightarrow>
      length (weights nn0) = length layers - 1 \<and> length (biases nn0) = length layers - 1 \<and>
      (\<forall>i < length layers - 1.
         shape (weights nn0 ! i) = (nat (layers ! Suc i), nat (layers ! i)) \<and>
         shape (biases nn0 ! i) = (nat (layers ! Suc i), 1)) \<and>
      (layers \<noteq> [] \<longrightarrow> wf_net (map nat layers) nn0)) \<and>
   (wf_net sizes nn \<and> wf_batch sizes mini_batch \<longrightarrow>
      wf_net sizes (snd (batch_stochastic_gradient_descent nn mini_batch eta)) \<and>
      (\<forall>nabla_b nabla_w. batch_backprop nn mini_batch = Inr (nabla_b, nabla_w) \<longrightarrow>
         list_all2 (\<lambda>g p. shape g = shape p) nabla_b (biases nn) \<and>
         list_all2 (\<lambda>g p. shape g = shape p) nabla_w (weights nn))) \<and>
   (wf_net sizes nn \<and> wf_batch sizes training_data \<longrightarrow>
      wf_net sizes (net (snd (learn nn training_data epochs mini_batch_size eta test_data rg))))"
proof (intro conjI impI)
  assume "2 \<le> length layers \<and> (\<forall>s \<in> set layers. 0 \<le> s)"
  then show "\<exists>nn g'. init_network g layers = Inr (nn, g')"
    using init_network_total[of layers g] by blast
next
  assume i: "init_network g layers = Inr (nn0, g0)"
  note s = init_network_shapes[OF i]
  show "length (weights nn0) = length layers - 1" by (rule s(2))
  show "length (biases nn0) = length layers - 1" by (rule s(3))
  show "\<forall>i < length layers - 1.
         shape (weights nn0 ! i) = (nat (layers ! Suc i), nat (layers ! i)) \<and>
         shape (biases nn0 ! i) = (nat (layers ! Suc i), 1)"
    using s(4) by blast
  assume "layers \<noteq> []"
  with i show "wf_net (map nat layers) nn0" by (rule init_network_wf)
next
  assume a: "wf_net sizes nn \<and> wf_batch sizes mini_batch"
  then show "wf_net sizes (snd (batch_stochastic_gradient_descent nn mini_batch eta))"
    using sgd_preserves_wf by blast
  show "\<forall>nabla_b nabla_w. batch_backprop nn mini_batch = Inr (nabla_b, nabla_w) \<longrightarrow>
         list_all2 (\<lambda>g p. shape g = shape p) nabla_b (biases nn) \<and>
         list_all2 (\<lambda>g p. shape g = shape p) nabla_w (weights nn)"
    using a backprop_shapes by blast
next
  assume "wf_net sizes nn \<and> wf_batch sizes training_data"
  then show "wf_net sizes (net (snd (learn nn training_data epochs mini_batch_size eta test_data rg)))"
    using learn_wf by blast
qed

section \<open>A mini-batch of one sample\<close>

lemma sum_axis0_single: "wf_arr a \<Longrightarrow> sum_axis0 [a] = a"
proof -
  assume wf: "wf_arr a"
  have "sum_axis0 [a] = mk (nrows a) (ncols a) (ent a)" by simp
  also have "\<dots> = a" using arr_eq_mk[OF wf] by simp
  finally show ?thesis .
qed

lemma batch_backprop_single:
  assumes ok: "backprop_ok sizes nn [(x, y)]"
  shows "batch_backprop nn [(x, y)] = Inr (ref_backprop nn (col x) (col y))"
proof -
  have wf: "wf_net sizes nn" using ok by (simp add: backprop_ok_def)
  from wf_net_Suc[OF wf] obtain k where len: "length sizes = Suc k" by blast
  note lens = wf_net_lengths[OF wf len]
  let ?rb = "ref_backprop nn (col x) (col y)"
  let ?zs = "ref_zs (zip (biases nn) (weights nn)) (col x)"
  have s: "(x, y) \<in> set [(x, y)]" by simp
  note d = backprop_ok_sample(1,2)[OF ok s, unfolded fst_conv]
  have lz: "length ?zs = k" unfolding length_ref_zs by (rule lens(3))
  have lw: "length (weights nn) = length ?zs" unfolding lz by (rule lens(1))
  have ld: "length (fst ?rb) = k"
    using length_ref_deltas[OF lw] lz by (simp add: ref_backprop_def Let_def)
  have lg: "length (snd ?rb) = k"
    using length_ref_deltas[OF lw, of "col y"] lz lens(3) by (simp add: ref_backprop_def Let_def)
  have b: "map (grad_b nn [(x, y)]) [0..<k] = fst ?rb"
  proof (rule nth_equalityI)
    show "length (map (grad_b nn [(x, y)]) [0..<k]) = length (fst ?rb)" using ld by simp
  next
    fix t assume "t < length (map (grad_b nn [(x, y)]) [0..<k])"
    then have t: "t < k" by simp
    have "wf_arr (fst ?rb ! t)" by (rule dims_delta(3)[OF wf len t d(1,2)])
    then show "map (grad_b nn [(x, y)]) [0..<k] ! t = fst ?rb ! t"
      using t by (simp add: grad_b_def batch_delta_def sum_axis0_single del: upt_Suc sum_axis0.simps)
  qed
  have w: "map (grad_w nn [(x, y)]) [0..<k] = snd ?rb"
  proof (rule nth_equalityI)
    show "length (map (grad_w nn [(x, y)]) [0..<k]) = length (snd ?rb)" using lg by simp
  next
    fix t assume "t < length (map (grad_w nn [(x, y)]) [0..<k])"
    then have t: "t < k" by simp
    have "wf_arr (snd ?rb ! t)" unfolding grad_w_sample[OF wf len t] by (rule dims_outer)
    then show "map (grad_w nn [(x, y)]) [0..<k] ! t = snd ?rb ! t"
      using t by (simp add: grad_w_def sum_axis0_single del: upt_Suc sum_axis0.simps)
  qed
  have "spec_batch_gradients nn [(x, y)] = (fst ?rb, snd ?rb)"
    unfolding spec_batch_gradients_def lens b w by (rule refl)
  then show ?thesis using batch_backprop_ok[OF ok] by simp
qed

section \<open>The examples\<close>

lemma wf_batch_a: "wf_batch [2, 1] [sample_a]"
  by (simp add: wf_batch_def sample_a_def)

lemma backprop_net21:
  "batch_backprop net21 [sample_a] = Inr ([Arr 1 [[- 1 / 8]]], [Arr 2 [[- 1 / 8, 0]]])"
  by (simp add: eval_code net21_def sample_a_def eval_nat_numeral)

lemma sgd_net21:
  "batch_stochastic_gradient_descent net21 [sample_a] 3
     = (None, \<lparr>num_layers = 2, biases = [Arr 1 [[3 / 8]]], weights = [Arr 2 [[3 / 8, 0]]]\<rparr>)"
  unfolding batch_stochastic_gradient_descent_def backprop_net21
  by (simp add: sgd_step_def py_truediv_def np_binop_def bdim_def bent_def ent_def mk_def amap_def
      nrows_def net21_def eval_nat_numeral)

theorem sgd_update_rule_witness:
  "wf_net [2, 1] net21 \<and> wf_batch [2, 1] [sample_a] \<and>
   batch_backprop net21 [sample_a] = Inr ([Arr 1 [[- 1 / 8]]], [Arr 2 [[- 1 / 8, 0]]]) \<and>
   batch_stochastic_gradient_descent net21 [sample_a] 3
     = (None, \<lparr>num_layers = 2, biases = [Arr 1 [[3 / 8]]], weights = [Arr 2 [[3 / 8, 0]]]\<rparr>) \<and>
   ([Arr 1 [[- 1 / 8]]], [Arr 2 [[- 1 / 8, 0]]]) = spec_batch_gradients net21 [sample_a]"
proof -
  from sgd_update_rule[OF wf_net21 wf_batch_a backprop_net21, of 3]
  have "([Arr 1 [[- 1 / 8]]], [Arr 2 [[- 1 / 8, 0]]]) = spec_batch_gradients net21 [sample_a]"
    by blast
  with wf_net21 wf_batch_a backprop_net21 sgd_net21 show ?thesis by (intro conjI)
qed

lemma init_net21: "init_network (\<lambda>k. 0) [2, 1] = Inr (net21, \<lambda>k. 0)"
  by (simp add: init_network_def randn_def mk_def net21_def eval_nat_numeral)

theorem shapes_invariant_witness:
  "2 \<le> length [2, 1 :: int] \<and> list_all (\<lambda>s. 0 \<le> s) [2, 1 :: int] \<and>
   init_network (\<lambda>k. 0) [2, 1] = Inr (net21, \<lambda>k. 0) \<and>
   wf_net (map nat [2, 1]) net21 \<and> wf_batch [2, 1] [sample_a] \<and>
   snd (batch_stochastic_gradient_descent net21 [sample_a] 3)
     = \<lparr>num_layers = 2, biases = [Arr 1 [[3 / 8]]], weights = [Arr 2 [[3 / 8, 0]]]\<rparr> \<and>
   wf_net [2, 1] \<lparr>num_layers = 2, biases = [Arr 1 [[3 / 8]]], weights = [Arr 2 [[3 / 8, 0]]]\<rparr> \<and>
   list_all2 (\<lambda>g p. shape g = shape p) [Arr 2 [[- 1 / 8, 0]]] (weights net21) \<and>
   wf_net [2, 1] (net (snd (learn net21 [sample_a] 1 1 3 None (\<lambda>k. 0))))"
proof -
  note t = shapes_invariant[where layers = "[2, 1]" and g = "\<lambda>k. 0" and ?nn0.0 = net21 and ?g0.0 = "\<lambda>k. 0"
      and sizes = "[2, 1]" and nn = net21 and mini_batch = "[sample_a]" and eta = 3
      and training_data = "[sample_a]" and epochs = 1 and mini_batch_size = 1 and test_data = None
      and rg = "\<lambda>k. 0"]
  have h: "wf_net [2, 1] net21 \<and> wf_batch [2, 1] [sample_a]" using wf_net21 wf_batch_a by simp
  from t h have 1: "wf_net [2, 1] (snd (batch_stochastic_gradient_descent net21 [sample_a] 3))" by blast
  from t h backprop_net21
  have 2: "list_all2 (\<lambda>g p. shape g = shape p) [Arr 2 [[- 1 / 8, 0]]] (weights net21)" by blast
  from t h have 3: "wf_net [2, 1] (net (snd (learn net21 [sample_a] 1 1 3 None (\<lambda>k. 0))))" by blast
  from t init_net21 have 4: "wf_net (map nat [2, 1]) net21" by simp
  show ?thesis using 1 2 3 4 wf_batch_a init_net21 by (simp add: sgd_net21)
qed

text \<open>
  Claim C1 fails on a network whose input and output layers have the same size, such as
  the network \<open>[2, 2]\<close> of the specification's toy dataset: \<open>batch_backprop\<close> raises
  \<open>ValueError\<close> at the unpacking of \<open>np.asarray(mini_batch).transpose()\<close> and returns no
  gradient. (When the two sizes differ it returns the batch-summed gradients of the
  backpropagation equations: \<open>batch_backprop_ok\<close>.)
\<close>

theorem batch_backprop_square_network:
  "wf_net [2, 2] net22 \<and> wf_batch [2, 2] [toy_a, toy_b] \<and>
   batch_backprop net22 [toy_a, toy_b] = Inl ValueError"
  by (simp add: wf_net_def net22_def wf_arr_def shape_def nrows_def wf_batch_def toy_a_def toy_b_def
      batch_backprop_def unpack_batch_def)

theorem batch_backprop_square_network_witness:
  "hd [2, 2 :: nat] = last [2, 2] \<and> length (fst toy_a) = length (snd toy_a) \<and>
   length (fst toy_b) = length (snd toy_b) \<and>
   batch_backprop net22 [toy_a, toy_b] = Inl ValueError"
  using batch_backprop_square_network by (simp add: toy_a_def toy_b_def)

text \<open>
  Claim C4 fails on the same networks: for the single-sample mini-batch \<open>[toy_a]\<close> the
  unbatched reference has a gradient and \<open>batch_backprop\<close> raises \<open>ValueError\<close>. (When
  the sizes of the input and output layers differ, the two agree: \<open>batch_backprop_single\<close>.)
\<close>

theorem batch_backprop_single_square_network:
  "wf_net [2, 2] net22 \<and> wf_batch [2, 2] [toy_a] \<and>
   batch_backprop net22 [toy_a] = Inl ValueError \<and>
   ref_backprop net22 (col (fst toy_a)) (col (snd toy_a))
     = ([Arr 1 [[- 1 / 8], [1 / 8]]], [Arr 2 [[- 1 / 8, 0], [1 / 8, 0]]])"
proof -
  have "ref_backprop net22 (col (fst toy_a)) (col (snd toy_a))
     = ([Arr 1 [[- 1 / 8], [1 / 8]]], [Arr 2 [[- 1 / 8, 0], [1 / 8, 0]]])"
    by (simp add: eval_spec net22_def toy_a_def eval_nat_numeral)
  then show ?thesis
    by (simp add: wf_net_def net22_def wf_arr_def shape_def nrows_def wf_batch_def toy_a_def
        batch_backprop_def unpack_batch_def)
qed

theorem batch_backprop_single_square_network_witness:
  "hd [2, 2 :: nat] = last [2, 2] \<and> length (fst toy_a) = length (snd toy_a) \<and>
   batch_backprop net22 [toy_a] = Inl ValueError \<and>
   fst (ref_backprop net22 (col (fst toy_a)) (col (snd toy_a))) = [Arr 1 [[- 1 / 8], [1 / 8]]]"
  using batch_backprop_single_square_network by (simp add: toy_a_def)

text \<open>
  On a network whose input and output layers have the same size the update never
  happens: \<open>batch_backprop\<close> raises \<open>ValueError\<close>, which
  \<open>batch_stochastic_gradient_descent\<close> lets through, with the network as it was.
\<close>

lemma sgd_square_fails:
  assumes "wf_batch sizes mb" "hd sizes = last sizes"
  shows "batch_stochastic_gradient_descent nn mb eta = (Some ValueError, nn)"
  using backprop_square_fails[OF assms, of nn]
  by (simp add: batch_stochastic_gradient_descent_def)

text \<open>
  Claim C2 fails on the networks on which \<open>batch_backprop\<close> raises, those whose input
  and output layers have the same size: on the network \<open>[2, 2]\<close> and the non-empty
  mini-batch of the toy dataset, \<open>batch_stochastic_gradient_descent\<close> raises
  \<open>ValueError\<close> and leaves every weight and bias as it was, where the claim has them
  updated. (Where \<open>batch_backprop\<close> returns, the update is the claim's:
  \<open>sgd_update_rule\<close>.)
\<close>

theorem sgd_square_network:
  "wf_net [2, 2] net22 \<and> wf_batch [2, 2] [toy_a, toy_b] \<and> [toy_a, toy_b] \<noteq> [] \<and>
   batch_stochastic_gradient_descent net22 [toy_a, toy_b] 3 = (Some ValueError, net22)"
  by (simp add: wf_net_def net22_def wf_arr_def shape_def nrows_def wf_batch_def toy_a_def toy_b_def
      batch_stochastic_gradient_descent_def batch_backprop_def unpack_batch_def)

theorem sgd_square_network_witness:
  "hd [2, 2 :: nat] = last [2, 2] \<and> length (fst toy_a) = length (snd toy_a) \<and>
   length (fst toy_b) = length (snd toy_b) \<and>
   fst (batch_stochastic_gradient_descent net22 [toy_a, toy_b] 3) = Some ValueError \<and>
   weights (snd (batch_stochastic_gradient_descent net22 [toy_a, toy_b] 3)) = weights net22 \<and>
   biases (snd (batch_stochastic_gradient_descent net22 [toy_a, toy_b] 3)) = biases net22"
  using sgd_square_network by (simp add: toy_a_def toy_b_def)

end
